theory Spec2Isabelle
  imports Main
begin

section \<open>The build script \<^verbatim>\<open>build.py\<close>\<close>

text \<open>
  \<^verbatim>\<open>build.py\<close> parses its command line, optionally loads a variable file into the
  process environment, resolves a repository, a tag set and a build-argument map and
  then drives a container engine (and, in Amazon mode, a cloud authorization client).
  Everything it does beyond resolving values is a call to a collaborator
  (python-dotenv, docker, boto3, logbook, base64).  The model is the script with
  \<^item> the parsed command line as a record \<open>args\<close> (one field per argparse \<open>dest\<close>),
  \<^item> \<^verbatim>\<open>os.environ\<close> as the list of its items,
  \<^item> every collaborator as a field of a record \<open>world\<close>: a function of the history
    (all events so far) and of the call's arguments, so that a collaborator may answer
    the same call differently at different moments,
  \<^item> every exception as the \<open>Inl\<close> of a sum, and
  \<^item> the sequence of collaborator and log calls as an explicit trace.
  Strings are Python 2 byte strings (the script splits the decoded token with a
  \<^verbatim>\<open>str\<close> separator).
\<close>

subsection \<open>Data\<close>

type_synonym environ = "(string \<times> string) list"

text \<open>An exception: one a collaborator raised, or the \<^verbatim>\<open>ValueError\<close> of the tuple
  unpacking at line 202.\<close>

datatype error = Raised string | ValueError

text \<open>The namespace \<^verbatim>\<open>parser.parse_args()\<close> returns.  \<open>env\<close> is a file name
  or \<^verbatim>\<open>False\<close> (\<open>None\<close> here) after \<^verbatim>\<open>--no-env\<close>; a flag that was not given is
  \<open>None\<close>; a \<^verbatim>\<open>nargs='*'\<close> flag given with no value is \<open>Some []\<close>.\<close>

record args =
  env :: "string option"
  path :: string
  tags :: "string list option"
  will_add_latest :: bool
  repository :: "string option"
  registry :: "string option"
  will_push :: bool
  will_login :: bool
  login_user :: "string option"
  login_password :: "string option"
  is_amazon_mode :: bool
  amazon_region :: "string option"
  amazon_registry_ids :: "string list option"
  level :: string
  silent :: bool

text \<open>One entry of \<^verbatim>\<open>response['authorizationData']\<close>.\<close>

record auth =
  proxyEndpoint :: string
  authorizationToken :: string

datatype loglevel = Info | Debug

text \<open>The arguments a log call passes after its message.\<close>

datatype logarg = Str string | OptStr "string option" | Response "auth list"

text \<open>The calls the script makes, with the arguments it passes.\<close>

datatype event =
    LookupLevel string
  | Log loglevel string "logarg list"
  | FindDotenv string
  | LoadDotenv string
  | FromEnv
  | ImportBoto3
  | Boto3Client "string option"
  | GetAuthorizationToken "string list option"
  | Login "string option" "string option" string
  | Build string string bool bool "(string \<times> string) list"
  | Push string string bool

text \<open>The collaborators.  The first argument of each call is the history.
  \<open>load_dotenv\<close> returns \<^verbatim>\<open>os.environ\<close> as the call leaves it; \<open>images_push\<close>
  returns the progress records its stream yields and the exception that ends the
  stream, if one does.  Two fields take no history: \<open>b64decode\<close>, a function of the
  token alone, and \<open>set_iter\<close>, the order in which a \<^verbatim>\<open>for\<close> loop enumerates a set,
  which Python leaves open and about which nothing is assumed.\<close>

record world =
  lookup_level :: "event list \<Rightarrow> string \<Rightarrow> error + unit"
  find_dotenv :: "event list \<Rightarrow> string \<Rightarrow> error + string"
  load_dotenv :: "event list \<Rightarrow> string \<Rightarrow> environ \<Rightarrow> error + environ"
  from_env :: "event list \<Rightarrow> error + unit"
  import_boto3 :: "event list \<Rightarrow> error + unit"
  boto3_client :: "event list \<Rightarrow> string option \<Rightarrow> error + unit"
  get_authorization_token :: "event list \<Rightarrow> string list option \<Rightarrow> error + auth list"
  b64decode :: "string \<Rightarrow> error + string"
  login :: "event list \<Rightarrow> string option \<Rightarrow> string option \<Rightarrow> string \<Rightarrow> error + string"
  images_build ::
    "event list \<Rightarrow> string \<Rightarrow> string \<Rightarrow> bool \<Rightarrow> bool \<Rightarrow> (string \<times> string) list \<Rightarrow> error + unit"
  images_push :: "event list \<Rightarrow> string \<Rightarrow> string \<Rightarrow> bool \<Rightarrow> string list \<times> error option"
  set_iter :: "string set \<Rightarrow> string list"

subsection \<open>Running: a trace and a result\<close>

type_synonym 'a prog = "event list \<Rightarrow> event list \<times> (error + 'a)"

definition ret :: "'a \<Rightarrow> 'a prog" where
  "ret x h = (h, Inr x)"

definition raise :: "error \<Rightarrow> 'a prog" where
  "raise e h = (h, Inl e)"

definition and_then :: "'a prog \<Rightarrow> ('a \<Rightarrow> 'b prog) \<Rightarrow> 'b prog" where
  "and_then m f h = (case m h of (h', Inl e) \<Rightarrow> (h', Inl e) | (h', Inr x) \<Rightarrow> f x h')"

definition call :: "event \<Rightarrow> (event list \<Rightarrow> error + 'a) \<Rightarrow> 'a prog" where
  "call ev f h = (h @ [ev], f h)"

definition log_info :: "string \<Rightarrow> logarg list \<Rightarrow> unit prog" where
  "log_info msg as h = (h @ [Log Info msg as], Inr ())"

definition log_debug :: "string \<Rightarrow> logarg list \<Rightarrow> unit prog" where
  "log_debug msg as h = (h @ [Log Debug msg as], Inr ())"

subsection \<open>Python's strings, \<^verbatim>\<open>or\<close> and \<^verbatim>\<open>os.environ.get\<close>\<close>

definition upper_char :: "char \<Rightarrow> char" where
  "upper_char c =
     (let n = (of_char c :: nat) in if 97 \<le> n \<and> n \<le> 122 then char_of (n - 32) else c)"

definition upper :: "string \<Rightarrow> string" where
  "upper s = map upper_char s"

definition startswith :: "string \<Rightarrow> string \<Rightarrow> bool" where
  "startswith k p = (take (length p) k = p)"

text \<open>\<^verbatim>\<open>s.replace(old, new)\<close> for a non-empty \<open>old\<close>: every occurrence, left to right.\<close>

fun replace :: "string \<Rightarrow> string \<Rightarrow> string \<Rightarrow> string" where
  "replace s [] new = s"
| "replace [] (a # old) new = []"
| "replace (c # cs) (a # old) new =
     (if take (Suc (length old)) (c # cs) = a # old
      then new @ replace (drop (length old) cs) (a # old) new
      else c # replace cs (a # old) new)"

text \<open>\<^verbatim>\<open>s.split(sep)\<close> for a one-character separator.\<close>

fun split :: "string \<Rightarrow> char \<Rightarrow> string list" where
  "split [] sep = [[]]"
| "split (c # cs) sep =
     (if c = sep then [] # split cs sep
      else (case split cs sep of [] \<Rightarrow> [[c]] | p # ps \<Rightarrow> (c # p) # ps))"

text \<open>\<^verbatim>\<open>x or y\<close> where \<open>x\<close> is a flag's string or \<^verbatim>\<open>None\<close>: \<open>x\<close> when it is a non-empty
  string.\<close>

definition or_str :: "string option \<Rightarrow> string \<Rightarrow> string" where
  "or_str x y = (case x of None \<Rightarrow> y | Some s \<Rightarrow> if s = [] then y else s)"

definition or_opt :: "string option \<Rightarrow> string option \<Rightarrow> string option" where
  "or_opt x y = (case x of None \<Rightarrow> y | Some s \<Rightarrow> if s = [] then y else Some s)"

definition environ_get :: "environ \<Rightarrow> string \<Rightarrow> string option" where
  "environ_get environ k = map_of environ k"

definition environ_get_default :: "environ \<Rightarrow> string \<Rightarrow> string \<Rightarrow> string" where
  "environ_get_default environ k d = (case map_of environ k of None \<Rightarrow> d | Some v \<Rightarrow> v)"

subsection \<open>\<^verbatim>\<open>_build\<close> (lines 43 to 63)\<close>

text \<open>\<^verbatim>\<open>for line in docker_client.images.push(...): log.debug(line)\<close>: each record the
  stream yields is logged as it comes; the stream's exception, if any, follows them.\<close>

fun log_lines :: "string list \<Rightarrow> unit prog" where
  "log_lines [] = ret ()"
| "log_lines (line # lines) = and_then (log_debug line []) (\<lambda>_. log_lines lines)"

definition push_stream :: "world \<Rightarrow> string \<Rightarrow> string \<Rightarrow> unit prog" where
  "push_stream w name tag h =
     (let r = images_push w h name tag True in
      and_then (log_lines (fst r))
        (\<lambda>_. case snd r of None \<Rightarrow> ret () | Some e \<Rightarrow> raise e) (h @ [Push name tag True]))"

text \<open>The body of the loop over the tags.\<close>

definition build_tag ::
  "world \<Rightarrow> string \<Rightarrow> string \<Rightarrow> string \<Rightarrow> bool \<Rightarrow> (string \<times> string) list \<Rightarrow> string \<Rightarrow> unit prog"
where
  "build_tag w pth reg rp wp build_args tag =
     (let t = reg @ ''/'' @ rp @ '':'' @ tag in
      and_then (log_info ''building docker image {}'' [Str t])
        (\<lambda>_. and_then (call (Build pth t True True build_args)
                 (\<lambda>h. images_build w h pth t True True build_args))
        (\<lambda>_. and_then (log_info ''completed building image'' [])
        (\<lambda>_. if wp
             then and_then (log_info ''attempting to push image to {}'' [Str reg])
                    (\<lambda>_. and_then (push_stream w (reg @ ''/'' @ rp) tag)
                    (\<lambda>_. log_info ''successfully pushed image'' []))
             else ret ()))))"

text \<open>\<^verbatim>\<open>_build\<close>, over the tags in the order the loop enumerates them.\<close>

fun build ::
  "world \<Rightarrow> string \<Rightarrow> string \<Rightarrow> string \<Rightarrow> string list \<Rightarrow> bool \<Rightarrow> (string \<times> string) list \<Rightarrow> unit prog"
where
  "build w pth reg rp [] wp build_args = ret ()"
| "build w pth reg rp (tag # ts) wp build_args =
     and_then (build_tag w pth reg rp wp build_args tag)
       (\<lambda>_. build w pth reg rp ts wp build_args)"

subsection \<open>The values \<^verbatim>\<open>__main__\<close> resolves (lines 182 to 187 and 206 to 209)\<close>

definition main_repo :: "args \<Rightarrow> environ \<Rightarrow> string" where
  "main_repo a environ = or_str (repository a) (environ_get_default environ ''BUILD_REPOSITORY'' '''')"

text \<open>\<^verbatim>\<open>set(args.tags or {os.environ.get('BUILD_TAG', 'latest')})\<close>, then
  \<^verbatim>\<open>tags.add('latest')\<close> under \<^verbatim>\<open>--latest\<close>.\<close>

definition main_tags :: "args \<Rightarrow> environ \<Rightarrow> string set" where
  "main_tags a environ =
     (let ts = (case tags a of
                  None \<Rightarrow> {environ_get_default environ ''BUILD_TAG'' ''latest''}
                | Some l \<Rightarrow> if l = [] then {environ_get_default environ ''BUILD_TAG'' ''latest''}
                            else set l)
      in if will_add_latest a then insert ''latest'' ts else ts)"

text \<open>\<^verbatim>\<open>{k[10:]: v for k, v in os.environ.items() if k.startswith('BUILD_ARG_')}\<close>, as
  the list of the items the comprehension emits.\<close>

definition main_build_args :: "environ \<Rightarrow> (string \<times> string) list" where
  "main_build_args environ =
     map (\<lambda>(k, v). (drop 10 k, v)) (filter (\<lambda>(k, v). startswith k ''BUILD_ARG_'') environ)"

definition main_registry :: "args \<Rightarrow> environ \<Rightarrow> string" where
  "main_registry a environ = or_str (registry a) (environ_get_default environ ''BUILD_REGISTRY'' '''')"

definition main_user :: "args \<Rightarrow> environ \<Rightarrow> string option" where
  "main_user a environ = or_opt (login_user a) (environ_get environ ''BUILD_USER'')"

definition main_pswd :: "args \<Rightarrow> environ \<Rightarrow> string option" where
  "main_pswd a environ = or_opt (login_password a) (environ_get environ ''BUILD_PASSWORD'')"

subsection \<open>\<^verbatim>\<open>__main__\<close> (lines 167 to 216)\<close>

text \<open>Lines 168 to 171: the log handler.  \<^verbatim>\<open>lookup_level\<close> is called unless
  \<^verbatim>\<open>--silent\<close> is given.\<close>

definition log_handler :: "world \<Rightarrow> args \<Rightarrow> unit prog" where
  "log_handler w a =
     (if silent a then ret ()
      else call (LookupLevel (upper (level a))) (\<lambda>h. lookup_level w h (upper (level a))))"

text \<open>Lines 175 to 178: the variable file.  \<^verbatim>\<open>if args.env\<close> holds for a non-empty
  file name.  The result is the environment the rest of the run reads.\<close>

definition load_env :: "world \<Rightarrow> args \<Rightarrow> environ \<Rightarrow> environ prog" where
  "load_env w a environ =
     (case env a of
        None \<Rightarrow> ret environ
      | Some name \<Rightarrow>
          if name = [] then ret environ
          else and_then (call (FindDotenv name) (\<lambda>h. find_dotenv w h name))
                 (\<lambda>e. and_then (log_info ''loading environment from {}'' [Str e])
                 (\<lambda>_. call (LoadDotenv e) (\<lambda>h. load_dotenv w h e environ))))"

text \<open>Lines 200 to 204: one entry of the authorization data.\<close>

definition amazon_entry ::
  "world \<Rightarrow> string \<Rightarrow> string \<Rightarrow> string list \<Rightarrow> bool \<Rightarrow> (string \<times> string) list \<Rightarrow> auth \<Rightarrow> unit prog"
where
  "amazon_entry w pth rp ts wp build_args au =
     (let reg = replace (proxyEndpoint au) ''https://'' '''' in
      case b64decode w (authorizationToken au) of
        Inl e \<Rightarrow> raise e
      | Inr creds \<Rightarrow>
          (case split creds CHR '':'' of
             [user, pswd] \<Rightarrow>
               and_then (call (Login (Some user) (Some pswd) reg)
                          (\<lambda>h. login w h (Some user) (Some pswd) reg))
                 (\<lambda>_. build w pth reg rp ts wp build_args)
           | _ \<Rightarrow> raise ValueError))"

text \<open>Line 199: the loop over \<^verbatim>\<open>response['authorizationData']\<close>.\<close>

fun amazon_entries ::
  "world \<Rightarrow> string \<Rightarrow> string \<Rightarrow> string list \<Rightarrow> bool \<Rightarrow> (string \<times> string) list \<Rightarrow> auth list \<Rightarrow> unit prog"
where
  "amazon_entries w pth rp ts wp build_args [] = ret ()"
| "amazon_entries w pth rp ts wp build_args (au # aus) =
     and_then (amazon_entry w pth rp ts wp build_args au)
       (\<lambda>_. amazon_entries w pth rp ts wp build_args aus)"

text \<open>Lines 190 to 204.\<close>

definition amazon_mode ::
  "world \<Rightarrow> args \<Rightarrow> string \<Rightarrow> string \<Rightarrow> string list \<Rightarrow> (string \<times> string) list \<Rightarrow> unit prog"
where
  "amazon_mode w a pth rp ts build_args =
     and_then (log_info ''running in AMAZON mode'' [])
       (\<lambda>_. and_then (log_info ''attempting to get ECR registry token'' [])
       (\<lambda>_. and_then (call ImportBoto3 (import_boto3 w))
       (\<lambda>_. and_then (call (Boto3Client (amazon_region a))
                (\<lambda>h. boto3_client w h (amazon_region a)))
       (\<lambda>_. and_then
               (case amazon_registry_ids a of
                  None \<Rightarrow> call (GetAuthorizationToken None)
                            (\<lambda>h. get_authorization_token w h None)
                | Some ids \<Rightarrow>
                    if ids = []
                    then call (GetAuthorizationToken None)
                           (\<lambda>h. get_authorization_token w h None)
                    else call (GetAuthorizationToken (Some ids))
                           (\<lambda>h. get_authorization_token w h (Some ids)))
       (\<lambda>response. and_then (log_debug ''{}'' [Response response])
       (\<lambda>_. amazon_entries w pth rp ts (will_push a) build_args response))))))"

text \<open>Lines 206 to 214.\<close>

definition vanilla_mode ::
  "world \<Rightarrow> args \<Rightarrow> environ \<Rightarrow> string \<Rightarrow> string \<Rightarrow> string list \<Rightarrow> (string \<times> string) list \<Rightarrow> unit prog"
where
  "vanilla_mode w a environ pth rp ts build_args =
     (let reg = main_registry a environ in
      and_then
        (if will_login a
         then (let user = main_user a environ; pswd = main_pswd a environ in
               and_then (log_info ''attempting to login to {} as {}'' [Str reg, OptStr user])
                 (\<lambda>_. and_then (call (Login user pswd reg) (\<lambda>h. login w h user pswd reg))
                 (\<lambda>login_response. and_then (log_info ''successfully logged in'' [])
                 (\<lambda>_. log_debug ''{}'' [Str login_response]))))
         else ret ())
        (\<lambda>_. build w pth reg rp ts (will_push a) build_args))"

text \<open>The whole run, from an empty history and the environment the process starts
  with.\<close>

definition main_prog :: "world \<Rightarrow> args \<Rightarrow> environ \<Rightarrow> unit prog" where
  "main_prog w a environ0 =
     and_then (log_handler w a)
       (\<lambda>_. and_then (load_env w a environ0)
       (\<lambda>environ. and_then (call FromEnv (from_env w))
       (\<lambda>_. and_then
               (let rp = main_repo a environ;
                    ts = set_iter w (main_tags a environ);
                    build_args = main_build_args environ;
                    pth = path a
                in if is_amazon_mode a
                   then amazon_mode w a pth rp ts build_args
                   else vanilla_mode w a environ pth rp ts build_args)
       (\<lambda>_. log_info ''finished'' []))))"

definition main :: "world \<Rightarrow> args \<Rightarrow> environ \<Rightarrow> event list \<times> (error + unit)" where
  "main w a environ0 = main_prog w a environ0 []"

section \<open>What the properties speak of\<close>

subsection \<open>Operations in a trace\<close>

text \<open>The authorization, login, build and push calls, as opposed to the log calls and
  the set-up calls.\<close>

definition is_operation :: "event \<Rightarrow> bool" where
  "is_operation ev =
     (case ev of
        GetAuthorizationToken _ \<Rightarrow> True
      | Login _ _ _ \<Rightarrow> True
      | Build _ _ _ _ _ \<Rightarrow> True
      | Push _ _ _ \<Rightarrow> True
      | _ \<Rightarrow> False)"

definition is_authorization :: "event \<Rightarrow> bool" where
  "is_authorization ev = (case ev of GetAuthorizationToken _ \<Rightarrow> True | _ \<Rightarrow> False)"

definition is_push :: "event \<Rightarrow> bool" where
  "is_push ev = (case ev of Push _ _ _ \<Rightarrow> True | _ \<Rightarrow> False)"

text \<open>The engine calls for one tag: the build of \<open>registry/repository:tag\<close> with
  \<open>rm\<close> and \<open>pull\<close> forced and the build-argument map, then the push of the same
  registry/repository and tag when the push flag is set.\<close>

definition tag_calls ::
  "string \<Rightarrow> string \<Rightarrow> string \<Rightarrow> bool \<Rightarrow> (string \<times> string) list \<Rightarrow> string \<Rightarrow> event list"
where
  "tag_calls pth reg rp wp build_args tag =
     Build pth (reg @ ''/'' @ rp @ '':'' @ tag) True True build_args
       # (if wp then [Push (reg @ ''/'' @ rp) tag True] else [])"

text \<open>Progress records, each forwarded to the log at debug level.\<close>

definition debug_logs :: "string list \<Rightarrow> event list" where
  "debug_logs ls = map (\<lambda>line. Log Debug line []) ls"

text \<open>Everything one completed iteration of the loop of \<^verbatim>\<open>_build\<close> appends to the
  history \<open>h\<close>.\<close>

definition tag_events ::
  "world \<Rightarrow> string \<Rightarrow> string \<Rightarrow> string \<Rightarrow> bool \<Rightarrow> (string \<times> string) list \<Rightarrow> string \<Rightarrow> event list \<Rightarrow> event list"
where
  "tag_events w pth reg rp wp build_args tag h =
     (let t = reg @ ''/'' @ rp @ '':'' @ tag;
          pre = [Log Info ''building docker image {}'' [Str t],
                 Build pth t True True build_args,
                 Log Info ''completed building image'' []]
      in if wp
         then pre @ [Log Info ''attempting to push image to {}'' [Str reg],
                     Push (reg @ ''/'' @ rp) tag True]
                @ debug_logs (fst (images_push w
                     (h @ pre @ [Log Info ''attempting to push image to {}'' [Str reg]])
                     (reg @ ''/'' @ rp) tag True))
                @ [Log Info ''successfully pushed image'' []]
         else pre)"

definition is_build :: "event \<Rightarrow> bool" where
  "is_build ev = (case ev of Build _ _ _ _ _ \<Rightarrow> True | _ \<Rightarrow> False)"

text \<open>A program that only appends to the history.\<close>

definition appends :: "'a prog \<Rightarrow> bool" where
  "appends p = (\<forall>h. \<exists>t. fst (p h) = h @ t)"

subsection \<open>The two halves of \<^verbatim>\<open>__main__\<close>\<close>

text \<open>Lines 168 to 178: the log handler and the variable file; the result is the
  environment the rest of the run reads.\<close>

definition startup :: "world \<Rightarrow> args \<Rightarrow> environ \<Rightarrow> environ prog" where
  "startup w a environ0 = and_then (log_handler w a) (\<lambda>_. load_env w a environ0)"

text \<open>Lines 180 to 216, given that environment.\<close>

definition after_startup :: "world \<Rightarrow> args \<Rightarrow> environ \<Rightarrow> unit prog" where
  "after_startup w a environ =
     and_then (call FromEnv (from_env w))
       (\<lambda>_. and_then
               (if is_amazon_mode a
                then amazon_mode w a (path a) (main_repo a environ)
                       (set_iter w (main_tags a environ)) (main_build_args environ)
                else vanilla_mode w a environ (path a) (main_repo a environ)
                       (set_iter w (main_tags a environ)) (main_build_args environ))
       (\<lambda>_. log_info ''finished'' []))"

subsection \<open>The cycles of Amazon mode\<close>

text \<open>The credentials of an entry of the authorization data: its token decoded and
  split at the only \<open>:\<close>, when there is exactly one.\<close>

definition entry_credentials :: "world \<Rightarrow> auth \<Rightarrow> (string \<times> string) option" where
  "entry_credentials w au =
     (case b64decode w (authorizationToken au) of
        Inl e \<Rightarrow> None
      | Inr creds \<Rightarrow>
          (case split creds CHR '':'' of [user, pswd] \<Rightarrow> Some (user, pswd) | _ \<Rightarrow> None))"

text \<open>One cycle: the login to the entry's registry (its endpoint without the scheme)
  with the entry's credentials, then the engine calls for every tag.\<close>

definition entry_calls ::
  "world \<Rightarrow> string \<Rightarrow> string \<Rightarrow> string list \<Rightarrow> bool \<Rightarrow> (string \<times> string) list \<Rightarrow> auth \<Rightarrow> event list"
where
  "entry_calls w pth rp ts wp build_args au =
     (case entry_credentials w au of
        None \<Rightarrow> []
      | Some (user, pswd) \<Rightarrow>
          Login (Some user) (Some pswd) (replace (proxyEndpoint au) ''https://'' [])
            # concat (map (tag_calls pth (replace (proxyEndpoint au) ''https://'' []) rp wp
                             build_args) ts))"

text \<open>Lines 194 to 197: the registry ids the authorization call is scoped to.\<close>

definition scoped_ids :: "args \<Rightarrow> string list option" where
  "scoped_ids a =
     (case amazon_registry_ids a of None \<Rightarrow> None | Some ids \<Rightarrow> if ids = [] then None else Some ids)"

subsection \<open>Collaborators that do not raise\<close>

text \<open>A world in which no collaborator call raises (decoding a token apart, which is a
  matter of the token).\<close>

definition never_raises :: "world \<Rightarrow> bool" where
  "never_raises w =
     (\<forall>h. (\<forall>s. lookup_level w h s = Inr ())
        \<and> (\<forall>s. \<not> isl (find_dotenv w h s))
        \<and> (\<forall>p environ. \<not> isl (load_dotenv w h p environ))
        \<and> from_env w h = Inr ()
        \<and> import_boto3 w h = Inr ()
        \<and> (\<forall>region. boto3_client w h region = Inr ())
        \<and> (\<forall>ids. \<not> isl (get_authorization_token w h ids))
        \<and> (\<forall>user pswd reg. \<not> isl (login w h user pswd reg))
        \<and> (\<forall>pth t rm pull build_args. images_build w h pth t rm pull build_args = Inr ())
        \<and> (\<forall>name tag stream. snd (images_push w h name tag stream) = None))"

subsection \<open>The tag set, in the words of the specification\<close>

text \<open>If the tag flag supplies one or more tags, the set of those tags; otherwise the
  singleton of the \<^verbatim>\<open>BUILD_TAG\<close> value if set, else of \<open>latest\<close>; and \<open>latest\<close> in
  addition when the always-latest flag is set.\<close>

definition spec_tags :: "string list option \<Rightarrow> string option \<Rightarrow> bool \<Rightarrow> string set" where
  "spec_tags flag env_tag always_latest =
     (let supplied = (case flag of None \<Rightarrow> [] | Some l \<Rightarrow> l);
          base = (if 1 \<le> length supplied then set supplied
                  else (case env_tag of Some v \<Rightarrow> {v} | None \<Rightarrow> {''latest''}))
      in base \<union> (if always_latest then {''latest''} else {}))"

subsection \<open>Precedence, in the words of the specification\<close>

text \<open>The flag's value if the flag is present, otherwise the variable's value if the
  variable is set, otherwise the default.  \<open>given\<close> is the flag as the script reads it:
  a flag whose value is empty counts as absent.\<close>

definition spec_resolve :: "'a option \<Rightarrow> 'a option \<Rightarrow> 'a \<Rightarrow> 'a" where
  "spec_resolve flag var d =
     (case flag of Some v \<Rightarrow> v | None \<Rightarrow> (case var of Some v \<Rightarrow> v | None \<Rightarrow> d))"

definition given :: "'a list option \<Rightarrow> 'a list option" where
  "given flag = (case flag of None \<Rightarrow> None | Some v \<Rightarrow> if v = [] then None else Some v)"

subsection \<open>A world and a command line to run the script on\<close>

text \<open>Every collaborator succeeds; no variable file is found (\<^verbatim>\<open>find_dotenv\<close> returns
  the empty path and \<^verbatim>\<open>load_dotenv\<close> leaves the environment as it is); the
  authorization API returns one entry, whose token is the base64 of \<open>user:pass\<close>; a
  push yields one progress record; a set of tags among \<open>v1\<close>, \<open>v2\<close> and \<open>latest\<close> is
  enumerated in that order (the runs below have no other tag).\<close>

definition example_world :: world where
  "example_world =
     \<lparr>lookup_level = (\<lambda>h s. Inr ()),
      find_dotenv = (\<lambda>h name. Inr []),
      load_dotenv = (\<lambda>h p environ. Inr environ),
      from_env = (\<lambda>h. Inr ()),
      import_boto3 = (\<lambda>h. Inr ()),
      boto3_client = (\<lambda>h region. Inr ()),
      get_authorization_token = (\<lambda>h ids.
         Inr [\<lparr>proxyEndpoint = ''https://ecr.example'', authorizationToken = ''dXNlcjpwYXNz''\<rparr>]),
      b64decode = (\<lambda>s. if s = ''dXNlcjpwYXNz'' then Inr ''user:pass''
                        else if s = ''dXNlcnBhc3M='' then Inr ''userpass''
                        else Inl (Raised ''TypeError'')),
      login = (\<lambda>h user pswd reg. Inr ''Login Succeeded''),
      images_build = (\<lambda>h pth t rm pull build_args. Inr ()),
      images_push = (\<lambda>h name tag stream. ([''pushed''], None)),
      set_iter = (\<lambda>S. filter (\<lambda>x. x \<in> S) [''v1'', ''v2'', ''latest''])\<rparr>"

text \<open>The command line with no flag: every \<open>dest\<close> at its default.\<close>

definition example_args :: args where
  "example_args =
     \<lparr>env = Some ''.env'', path = ''.'', tags = None, will_add_latest = False,
      repository = None, registry = None, will_push = False, will_login = True,
      login_user = None, login_password = None, is_amazon_mode = False,
      amazon_region = None, amazon_registry_ids = None, level = ''INFO'', silent = False\<rparr>"

text \<open>Entries of authorization data.  The token of the first two is the base64 of
  \<open>user:pass\<close>; the token of the third is the base64 of \<open>userpass\<close>, which has no
  \<open>:\<close>.\<close>

definition first_entry :: auth where
  "first_entry =
     \<lparr>proxyEndpoint = ''https://111.ecr.example'', authorizationToken = ''dXNlcjpwYXNz''\<rparr>"

definition second_entry :: auth where
  "second_entry =
     \<lparr>proxyEndpoint = ''https://222.ecr.example'', authorizationToken = ''dXNlcjpwYXNz''\<rparr>"

definition malformed_entry :: auth where
  "malformed_entry =
     \<lparr>proxyEndpoint = ''https://222.ecr.example'', authorizationToken = ''dXNlcnBhc3M=''\<rparr>"

text \<open>The authorization API returns two entries.\<close>

definition two_entries_world :: world where
  "two_entries_world =
     example_world\<lparr>get_authorization_token := (\<lambda>h ids. Inr [first_entry, second_entry])\<rparr>"

text \<open>The authorization API returns a well-formed entry and then a malformed one.\<close>

definition malformed_second_world :: world where
  "malformed_second_world =
     example_world\<lparr>get_authorization_token := (\<lambda>h ids. Inr [first_entry, malformed_entry])\<rparr>"

text \<open>\<^verbatim>\<open>--aws --amazon-registry-ids 111 222 -r app --push\<close>.\<close>

definition amazon_args :: args where
  "amazon_args =
     example_args\<lparr>is_amazon_mode := True, amazon_registry_ids := Some [''111'', ''222''],
       repository := Some ''app'', will_push := True\<rparr>"

text \<open>\<^verbatim>\<open>-r myrepo -t v1 v2 --latest -p secret\<close>, and an environment for it.\<close>

definition vanilla_args :: args where
  "vanilla_args =
     example_args\<lparr>repository := Some ''myrepo'', tags := Some [''v1'', ''v2''],
       will_add_latest := True, login_password := Some ''secret''\<rparr>"

definition vanilla_environ :: environ where
  "vanilla_environ =
     [(''BUILD_REGISTRY'', ''reg.example''), (''BUILD_USER'', ''bob''),
      (''BUILD_REPOSITORY'', ''other'')]"

text \<open>\<^verbatim>\<open>--aws -r "" -g flag.example\<close>, and an environment that sets the repository and
  the Amazon region.\<close>

definition precedence_args :: args where
  "precedence_args =
     example_args\<lparr>is_amazon_mode := True, repository := Some [],
       registry := Some ''flag.example''\<rparr>"

definition precedence_environ :: environ where
  "precedence_environ =
     [(''BUILD_REPOSITORY'', ''envrepo''), (''BUILD_AMAZON_REGION'', ''us-east-1'')]"

section \<open>Properties\<close>

subsection \<open>Running\<close>

lemma log_lines_run: "log_lines ls h = (h @ debug_logs ls, Inr ())"
  by (induction ls arbitrary: h) (simp_all add: debug_logs_def ret_def and_then_def log_debug_def)

lemma push_stream_run:
  "push_stream w name tag h =
     (h @ Push name tag True # debug_logs (fst (images_push w h name tag True)),
      case snd (images_push w h name tag True) of None \<Rightarrow> Inr () | Some e \<Rightarrow> Inl e)"
  by (simp add: push_stream_def Let_def and_then_def log_lines_run ret_def raise_def
      split: option.split)

lemma build_tag_ok:
  assumes "build_tag w pth reg rp wp build_args tag h = (h', Inr ())"
  shows "h' = h @ tag_events w pth reg rp wp build_args tag h"
  using assms
  by (auto simp: build_tag_def tag_events_def Let_def and_then_def log_info_def call_def
      push_stream_run ret_def split: sum.splits option.splits if_splits)

lemma filter_operation_debug: "filter is_operation (debug_logs ls) = []"
  by (induction ls) (simp_all add: debug_logs_def is_operation_def)

lemma tag_events_calls:
  "filter is_operation (tag_events w pth reg rp wp build_args tag h) =
     tag_calls pth reg rp wp build_args tag"
  by (simp add: tag_events_def tag_calls_def Let_def is_operation_def filter_operation_debug)

lemma and_then_assoc: "and_then (and_then m f) g = and_then m (\<lambda>x. and_then (f x) g)"
  by (rule ext) (simp add: and_then_def split: prod.splits sum.splits)

lemma main_startup: "main w a environ0 = and_then (startup w a environ0) (after_startup w a) []"
proof -
  have "after_startup w a = (\<lambda>environ.
     and_then (call FromEnv (from_env w))
       (\<lambda>_. and_then
               (if is_amazon_mode a
                then amazon_mode w a (path a) (main_repo a environ)
                       (set_iter w (main_tags a environ)) (main_build_args environ)
                else vanilla_mode w a environ (path a) (main_repo a environ)
                       (set_iter w (main_tags a environ)) (main_build_args environ))
       (\<lambda>_. log_info ''finished'' [])))"
    by (rule ext) (simp add: after_startup_def)
  then show ?thesis
    by (simp add: main_def main_prog_def startup_def and_then_assoc Let_def)
qed

lemma appends_ret: "appends (ret x)"
  by (simp add: appends_def ret_def)

lemma appends_raise: "appends (raise e)"
  by (simp add: appends_def raise_def)

lemma appends_call: "appends (call ev f)"
  by (simp add: appends_def call_def)

lemma appends_log_info: "appends (log_info msg as)"
  by (simp add: appends_def log_info_def)

lemma appends_log_debug: "appends (log_debug msg as)"
  by (simp add: appends_def log_debug_def)

lemma appends_and_then:
  assumes "appends m" and "\<And>x. appends (f x)"
  shows "appends (and_then m f)"
  unfolding appends_def
proof
  fix h
  from assms(1) obtain t where t: "fst (m h) = h @ t" unfolding appends_def by blast
  show "\<exists>t. fst (and_then m f h) = h @ t"
  proof (cases "m h")
    case (Pair h' r)
    with t have h': "h' = h @ t" by simp
    show ?thesis
    proof (cases r)
      case (Inl e)
      with Pair h' show ?thesis by (simp add: and_then_def)
    next
      case (Inr x)
      from assms(2) [of x] obtain t' where "fst (f x h') = h' @ t'" unfolding appends_def by blast
      with Pair Inr h' show ?thesis by (simp add: and_then_def)
    qed
  qed
qed

lemmas appends_intros = appends_and_then appends_ret appends_raise appends_call
  appends_log_info appends_log_debug

lemma appends_push_stream: "appends (push_stream w name tag)"
  by (simp add: appends_def push_stream_run)

lemma appends_build_tag: "appends (build_tag w pth reg rp wp build_args tag)"
  unfolding build_tag_def Let_def
  by (auto intro!: appends_intros appends_push_stream)

lemma appends_build: "appends (build w pth reg rp ts wp build_args)"
  by (induction ts) (simp_all add: appends_intros appends_build_tag)

lemma appends_amazon_entry: "appends (amazon_entry w pth rp ts wp build_args au)"
  unfolding amazon_entry_def Let_def
  by (auto intro!: appends_intros appends_build split: sum.splits list.splits)

lemma appends_amazon_entries: "appends (amazon_entries w pth rp ts wp build_args aus)"
  by (induction aus) (simp_all add: appends_intros appends_amazon_entry)

lemma appends_amazon_mode: "appends (amazon_mode w a pth rp ts build_args)"
  unfolding amazon_mode_def
  by (auto intro!: appends_intros appends_amazon_entries split: option.splits)

lemma appends_vanilla_mode: "appends (vanilla_mode w a environ pth rp ts build_args)"
  unfolding vanilla_mode_def Let_def
  by (auto intro!: appends_intros appends_build)

lemma appends_after_startup: "appends (after_startup w a environ)"
  unfolding after_startup_def
  by (auto intro!: appends_intros appends_amazon_mode appends_vanilla_mode)

lemma after_startup_from_env:
  "\<exists>t. fst (after_startup w a environ h) = h @ FromEnv # t"
proof (cases "from_env w h")
  case (Inl e)
  then show ?thesis by (simp add: after_startup_def and_then_def call_def)
next
  case (Inr u)
  let ?rest = "and_then
               (if is_amazon_mode a
                then amazon_mode w a (path a) (main_repo a environ)
                       (set_iter w (main_tags a environ)) (main_build_args environ)
                else vanilla_mode w a environ (path a) (main_repo a environ)
                       (set_iter w (main_tags a environ)) (main_build_args environ))
       (\<lambda>_. log_info ''finished'' [])"
  have "appends ?rest"
    by (auto intro!: appends_intros appends_amazon_mode appends_vanilla_mode)
  then obtain t where "fst (?rest (h @ [FromEnv])) = (h @ [FromEnv]) @ t"
    unfolding appends_def by blast
  with Inr show ?thesis by (simp add: after_startup_def and_then_def call_def)
qed

subsection \<open>Lists split at an event\<close>

lemma split_unique:
  "xs @ a # ys = xs' @ a' # ys' \<Longrightarrow> \<forall>e\<in>set xs. \<not> P e \<Longrightarrow> \<forall>e\<in>set ys. \<not> P e \<Longrightarrow> P a'
     \<Longrightarrow> xs = xs' \<and> a = a' \<and> ys = ys'"
proof (induction xs arbitrary: xs')
  case Nil
  then show ?case by (cases xs') auto
next
  case (Cons x xs)
  then show ?case by (cases xs') auto
qed

lemma no_split: "xs = t1 @ a # t2 \<Longrightarrow> \<forall>e\<in>set xs. \<not> P e \<Longrightarrow> P a \<Longrightarrow> False"
  by auto

lemma split_append:
  assumes "xs @ ys = t1 @ a # t2"
  shows "(\<exists>m. xs = t1 @ a # m \<and> t2 = m @ ys) \<or> (\<exists>m. t1 = xs @ m \<and> ys = m @ a # t2)"
  using assms by (auto simp: append_eq_append_conv2 append_eq_Cons_conv Cons_eq_append_conv)

lemma take_debug_append:
  assumes "take (length ls) m = debug_logs ls"
  shows "take (length ls) (m @ ys) = debug_logs ls"
proof -
  from assms have "length (take (length ls) m) = length ls" by (simp add: debug_logs_def)
  then have "length ls \<le> length m" by simp
  with assms show ?thesis by simp
qed

subsection \<open>The loop of \<^verbatim>\<open>_build\<close>\<close>

lemma push_in_tag_events:
  assumes "tag_events w pth reg rp wp build_args tag h = t1 @ Push name g True # t2"
  shows "take (length (fst (images_push w (h @ t1) name g True))) t2 =
           debug_logs (fst (images_push w (h @ t1) name g True))"
proof (cases wp)
  case False
  let ?t = "reg @ ''/'' @ rp @ '':'' @ tag"
  from False assms have "[Log Info ''building docker image {}'' [Str ?t],
                 Build pth ?t True True build_args,
                 Log Info ''completed building image'' []] = t1 @ Push name g True # t2"
    by (simp add: tag_events_def Let_def)
  then have False by (rule no_split [where P = is_push]) (simp_all add: is_push_def)
  then show ?thesis ..
next
  case True
  let ?t = "reg @ ''/'' @ rp @ '':'' @ tag"
  let ?pre = "[Log Info ''building docker image {}'' [Str ?t],
                 Build pth ?t True True build_args,
                 Log Info ''completed building image'' [],
                 Log Info ''attempting to push image to {}'' [Str reg]]"
  let ?ls = "fst (images_push w (h @ ?pre) (reg @ ''/'' @ rp) tag True)"
  from True assms have eq: "?pre @ Push (reg @ ''/'' @ rp) tag True #
      (debug_logs ?ls @ [Log Info ''successfully pushed image'' []]) = t1 @ Push name g True # t2"
    by (simp add: tag_events_def Let_def)
  have "?pre = t1 \<and> Push (reg @ ''/'' @ rp) tag True = Push name g True \<and>
     debug_logs ?ls @ [Log Info ''successfully pushed image'' []] = t2"
    by (rule split_unique [where P = is_push, OF eq]) (auto simp: is_push_def debug_logs_def)
  then have "t1 = ?pre" "name = reg @ ''/'' @ rp" "g = tag"
     "t2 = debug_logs ?ls @ [Log Info ''successfully pushed image'' []]" by auto
  then show ?thesis by (simp add: debug_logs_def)
qed

text \<open>A run of \<^verbatim>\<open>_build\<close> that returns: what it appended to the history.\<close>

lemma build_ok:
  assumes "build w pth reg rp ts wp build_args h = (h', Inr ())"
  shows "\<exists>t. h' = h @ t
    \<and> filter is_operation t = concat (map (tag_calls pth reg rp wp build_args) ts)
    \<and> (\<forall>t1 name tag t2. t = t1 @ Push name tag True # t2 \<longrightarrow>
          take (length (fst (images_push w (h @ t1) name tag True))) t2
            = debug_logs (fst (images_push w (h @ t1) name tag True)))"
  using assms
proof (induction ts arbitrary: h h')
  case Nil
  then show ?case by (simp add: ret_def)
next
  case (Cons tag ts)
  let ?seg = "tag_events w pth reg rp wp build_args tag h"
  from Cons.prems obtain h1 where
    h1: "build_tag w pth reg rp wp build_args tag h = (h1, Inr ())" and
    rest: "build w pth reg rp ts wp build_args h1 = (h', Inr ())"
    by (auto simp: and_then_def split: prod.splits sum.splits)
  from build_tag_ok [OF h1] have h1_eq: "h1 = h @ ?seg" .
  from Cons.IH [OF rest] obtain t where
    t: "h' = h1 @ t"
       "filter is_operation t = concat (map (tag_calls pth reg rp wp build_args) ts)"
       "\<And>t1 name g t2. t = t1 @ Push name g True # t2 \<Longrightarrow>
          take (length (fst (images_push w (h1 @ t1) name g True))) t2
            = debug_logs (fst (images_push w (h1 @ t1) name g True))"
    by blast
  have "\<And>t1 name g t2. ?seg @ t = t1 @ Push name g True # t2 \<Longrightarrow>
          take (length (fst (images_push w (h @ t1) name g True))) t2
            = debug_logs (fst (images_push w (h @ t1) name g True))"
  proof -
    fix t1 name g t2
    assume "?seg @ t = t1 @ Push name g True # t2"
    from split_append [OF this]
    show "take (length (fst (images_push w (h @ t1) name g True))) t2
            = debug_logs (fst (images_push w (h @ t1) name g True))"
    proof
      assume "\<exists>m. ?seg = t1 @ Push name g True # m \<and> t2 = m @ t"
      then obtain m where m: "?seg = t1 @ Push name g True # m" "t2 = m @ t" by blast
      from push_in_tag_events [OF m(1)] show ?thesis
        unfolding m(2) by (rule take_debug_append)
    next
      assume "\<exists>m. t1 = ?seg @ m \<and> t = m @ Push name g True # t2"
      then obtain m where m: "t1 = ?seg @ m" "t = m @ Push name g True # t2" by blast
      from t(3) [OF m(2)] show ?thesis by (simp add: m(1) h1_eq)
    qed
  qed
  then show ?case
    apply (intro exI [where x = "?seg @ t"])
    apply (simp add: t(1,2) h1_eq tag_events_calls)
    done
qed

lemma tag_calls_members:
  assumes "tag \<in> set ts"
  shows "Build pth (reg @ ''/'' @ rp @ '':'' @ tag) True True build_args
           \<in> set (concat (map (tag_calls pth reg rp wp build_args) ts))
     \<and> (Push (reg @ ''/'' @ rp) tag True
           \<in> set (concat (map (tag_calls pth reg rp wp build_args) ts)) \<longleftrightarrow> wp)"
  using assms by (auto simp: tag_calls_def)

lemma operation_members:
  assumes "filter is_operation t = c" and "is_operation ev"
  shows "ev \<in> set t \<longleftrightarrow> ev \<in> set c"
proof -
  from assms(2) have "ev \<in> set t \<longleftrightarrow> ev \<in> set (filter is_operation t)" by simp
  with assms(1) show ?thesis by simp
qed

text \<open>
  C9.  When \<^verbatim>\<open>_build\<close> returns, the engine calls it made are, tag after tag in the
  order of the loop, the build of \<open>registry/repository:tag\<close> from the context path with
  \<open>rm\<close> and \<open>pull\<close> forced and the build-argument map, followed by the push of the same
  registry/repository and tag exactly when the push flag is set: for every tag the build
  is in the trace, and the push is in the trace if and only if the push flag is set.
  Every push call in the trace is followed at once by the progress records that call
  yielded, each logged at debug level, in the order of the stream.
\<close>

theorem build_invokes_engine:
  assumes "build w pth reg rp ts wp build_args h = (h', Inr ())"
  shows "\<exists>t. h' = h @ t
    \<and> filter is_operation t = concat (map (tag_calls pth reg rp wp build_args) ts)
    \<and> (\<forall>tag\<in>set ts.
          Build pth (reg @ ''/'' @ rp @ '':'' @ tag) True True build_args \<in> set t
        \<and> (Push (reg @ ''/'' @ rp) tag True \<in> set t \<longleftrightarrow> wp))
    \<and> (\<forall>t1 name tag t2. t = t1 @ Push name tag True # t2 \<longrightarrow>
          take (length (fst (images_push w (h @ t1) name tag True))) t2
            = debug_logs (fst (images_push w (h @ t1) name tag True)))"
proof -
  from build_ok [OF assms] obtain t where
    t: "h' = h @ t"
       "filter is_operation t = concat (map (tag_calls pth reg rp wp build_args) ts)"
       "\<forall>t1 name tag t2. t = t1 @ Push name tag True # t2 \<longrightarrow>
          take (length (fst (images_push w (h @ t1) name tag True))) t2
            = debug_logs (fst (images_push w (h @ t1) name tag True))"
    by blast
  have "\<forall>tag\<in>set ts.
          Build pth (reg @ ''/'' @ rp @ '':'' @ tag) True True build_args \<in> set t
        \<and> (Push (reg @ ''/'' @ rp) tag True \<in> set t \<longleftrightarrow> wp)"
  proof
    fix tag assume tag: "tag \<in> set ts"
    have b: "is_operation (Build pth (reg @ ''/'' @ rp @ '':'' @ tag) True True build_args)"
      and p: "is_operation (Push (reg @ ''/'' @ rp) tag True)"
      by (simp_all add: is_operation_def)
    from operation_members [OF t(2) b] operation_members [OF t(2) p]
      tag_calls_members [OF tag, of pth reg rp build_args wp]
    show "Build pth (reg @ ''/'' @ rp @ '':'' @ tag) True True build_args \<in> set t
        \<and> (Push (reg @ ''/'' @ rp) tag True \<in> set t \<longleftrightarrow> wp)"
      by simp
  qed
  with t show ?thesis by blast
qed


theorem build_invokes_engine_witness:
  "build example_world ''.'' ''ecr.example'' ''app'' [''v1'', ''latest''] True [(''X'', ''1'')] []
     = ([Log Info ''building docker image {}'' [Str ''ecr.example/app:v1''],
         Build ''.'' ''ecr.example/app:v1'' True True [(''X'', ''1'')],
         Log Info ''completed building image'' [],
         Log Info ''attempting to push image to {}'' [Str ''ecr.example''],
         Push ''ecr.example/app'' ''v1'' True,
         Log Debug ''pushed'' [],
         Log Info ''successfully pushed image'' [],
         Log Info ''building docker image {}'' [Str ''ecr.example/app:latest''],
         Build ''.'' ''ecr.example/app:latest'' True True [(''X'', ''1'')],
         Log Info ''completed building image'' [],
         Log Info ''attempting to push image to {}'' [Str ''ecr.example''],
         Push ''ecr.example/app'' ''latest'' True,
         Log Debug ''pushed'' [],
         Log Info ''successfully pushed image'' []], Inr ())
   \<and> filter is_operation
         (fst (build example_world ''.'' ''ecr.example'' ''app'' [''v1'', ''latest''] True
                 [(''X'', ''1'')] []))
       = [Build ''.'' ''ecr.example/app:v1'' True True [(''X'', ''1'')],
          Push ''ecr.example/app'' ''v1'' True,
          Build ''.'' ''ecr.example/app:latest'' True True [(''X'', ''1'')],
          Push ''ecr.example/app'' ''latest'' True]"
proof -
  let ?h' = "[Log Info ''building docker image {}'' [Str ''ecr.example/app:v1''],
         Build ''.'' ''ecr.example/app:v1'' True True [(''X'', ''1'')],
         Log Info ''completed building image'' [],
         Log Info ''attempting to push image to {}'' [Str ''ecr.example''],
         Push ''ecr.example/app'' ''v1'' True,
         Log Debug ''pushed'' [],
         Log Info ''successfully pushed image'' [],
         Log Info ''building docker image {}'' [Str ''ecr.example/app:latest''],
         Build ''.'' ''ecr.example/app:latest'' True True [(''X'', ''1'')],
         Log Info ''completed building image'' [],
         Log Info ''attempting to push image to {}'' [Str ''ecr.example''],
         Push ''ecr.example/app'' ''latest'' True,
         Log Debug ''pushed'' [],
         Log Info ''successfully pushed image'' []]"
  have run: "build example_world ''.'' ''ecr.example'' ''app'' [''v1'', ''latest''] True
      [(''X'', ''1'')] [] = (?h', Inr ())"
    by code_simp
  from build_invokes_engine [OF run] obtain t where
    t: "?h' = [] @ t"
       "filter is_operation t =
          concat (map (tag_calls ''.'' ''ecr.example'' ''app'' True [(''X'', ''1'')]) [''v1'', ''latest''])"
    by blast
  from t(1) have "t = ?h'" by simp
  with t(2) have "filter is_operation ?h' =
          concat (map (tag_calls ''.'' ''ecr.example'' ''app'' True [(''X'', ''1'')]) [''v1'', ''latest''])"
    by (simp only:)
  also have "\<dots> = [Build ''.'' ''ecr.example/app:v1'' True True [(''X'', ''1'')],
          Push ''ecr.example/app'' ''v1'' True,
          Build ''.'' ''ecr.example/app:latest'' True True [(''X'', ''1'')],
          Push ''ecr.example/app'' ''latest'' True]"
    by (simp add: tag_calls_def)
  finally have "filter is_operation
         (fst (build example_world ''.'' ''ecr.example'' ''app'' [''v1'', ''latest''] True
                 [(''X'', ''1'')] []))
       = [Build ''.'' ''ecr.example/app:v1'' True True [(''X'', ''1'')],
          Push ''ecr.example/app'' ''v1'' True,
          Build ''.'' ''ecr.example/app:latest'' True True [(''X'', ''1'')],
          Push ''ecr.example/app'' ''latest'' True]"
    unfolding run by simp
  with run show ?thesis by (rule conjI)
qed

subsection \<open>The resolved values\<close>

text \<open>
  C4.  The tag set the script resolves is the one the specification defines: the set of
  the tags of the flag when it supplies at least one, otherwise the singleton of
  \<^verbatim>\<open>BUILD_TAG\<close> or of \<open>latest\<close>, with \<open>latest\<close> added under the always-latest flag.
\<close>

theorem main_tags_refines_spec:
  "main_tags a environ = spec_tags (tags a) (environ_get environ ''BUILD_TAG'') (will_add_latest a)"
  by (cases "tags a")
     (auto simp: main_tags_def spec_tags_def environ_get_def environ_get_default_def Let_def
       Suc_le_eq split: option.splits)

text \<open>
  C5.  The tag set is never empty; without the tag flag and without \<^verbatim>\<open>BUILD_TAG\<close> it
  is exactly \<open>{latest}\<close>; the tag flag given with zero arguments yields a non-empty set
  too.
\<close>

theorem main_tags_nonempty:
  "main_tags a environ \<noteq> {}
   \<and> (tags a = None \<and> environ_get environ ''BUILD_TAG'' = None
        \<longrightarrow> main_tags a environ = {''latest''})
   \<and> (tags a = Some [] \<longrightarrow> main_tags a environ \<noteq> {})"
  by (cases "tags a")
     (auto simp: main_tags_def environ_get_def environ_get_default_def Let_def)

theorem main_tags_nonempty_witness:
  "main_tags example_args [] = {''latest''}
   \<and> main_tags (example_args\<lparr>tags := Some []\<rparr>) [(''BUILD_TAG'', ''v7'')] \<noteq> {}"
proof -
  have none: "tags example_args = None \<and> environ_get [] ''BUILD_TAG'' = None"
    by (simp add: example_args_def environ_get_def)
  from main_tags_nonempty [of example_args "[]"] none
  have one: "main_tags example_args [] = {''latest''}" by blast
  have "tags (example_args\<lparr>tags := Some []\<rparr>) = Some []" by simp
  with main_tags_nonempty [of "example_args\<lparr>tags := Some []\<rparr>" "[(''BUILD_TAG'', ''v7'')]"]
  have two: "main_tags (example_args\<lparr>tags := Some []\<rparr>) [(''BUILD_TAG'', ''v7'')] \<noteq> {}" by blast
  from one two show ?thesis by (rule conjI)
qed

lemma startswith_build_arg:
  assumes "startswith k ''BUILD_ARG_''"
  shows "k = ''BUILD_ARG_'' @ drop 10 k"
proof -
  have len: "length ''BUILD_ARG_'' = 10" by simp
  from assms have "take 10 k = ''BUILD_ARG_''" unfolding startswith_def len .
  with append_take_drop_id [of 10 k] show ?thesis by simp
qed

lemma startswith_append: "startswith (p @ k) p"
  by (simp add: startswith_def)

lemma drop_build_arg_eq:
  assumes "startswith k' ''BUILD_ARG_''"
  shows "(drop 10 k' = k) = (k' = ''BUILD_ARG_'' @ k)"
proof
  assume "drop 10 k' = k"
  with startswith_build_arg [OF assms] show "k' = ''BUILD_ARG_'' @ k" by simp
next
  assume "k' = ''BUILD_ARG_'' @ k"
  then show "drop 10 k' = k" by simp
qed

lemma build_args_mem:
  "(k, v) \<in> set (main_build_args environ) \<longleftrightarrow> (''BUILD_ARG_'' @ k, v) \<in> set environ"
proof
  assume "(k, v) \<in> set (main_build_args environ)"
  then obtain k' where k': "(k', v) \<in> set environ" "startswith k' ''BUILD_ARG_''" "drop 10 k' = k"
    by (auto simp: main_build_args_def)
  with drop_build_arg_eq [of k' k] show "(''BUILD_ARG_'' @ k, v) \<in> set environ" by simp
next
  assume a: "(''BUILD_ARG_'' @ k, v) \<in> set environ"
  have "startswith (''BUILD_ARG_'' @ k) ''BUILD_ARG_''" by (rule startswith_append)
  with a have "(drop 10 (''BUILD_ARG_'' @ k), v) \<in> set (main_build_args environ)"
    unfolding main_build_args_def by force
  then show "(k, v) \<in> set (main_build_args environ)" by simp
qed

lemma build_args_map_of:
  "map_of (main_build_args environ) k = map_of environ (''BUILD_ARG_'' @ k)"
proof (induction environ)
  case Nil
  show ?case by (simp add: main_build_args_def)
next
  case (Cons kv environ)
  obtain k' v' where kv: "kv = (k', v')" by (cases kv)
  from Cons have ih: "map_of (main_build_args environ) k = map_of environ (''BUILD_ARG_'' @ k)" .
  show ?case
  proof (cases "startswith k' ''BUILD_ARG_''")
    case True
    have step: "main_build_args (kv # environ) = (drop 10 k', v') # main_build_args environ"
      using True by (simp add: main_build_args_def kv)
    show ?thesis
    proof (cases "drop 10 k' = k")
      case eq: True
      with drop_build_arg_eq [OF True, of k] have "k' = ''BUILD_ARG_'' @ k" by simp
      with eq step show ?thesis by (simp add: kv)
    next
      case ne: False
      with drop_build_arg_eq [OF True, of k] have "k' \<noteq> ''BUILD_ARG_'' @ k" by simp
      with ne step ih show ?thesis by (simp add: kv)
    qed
  next
    case False
    then have "k' \<noteq> ''BUILD_ARG_'' @ k" using startswith_append by blast
    moreover have "main_build_args (kv # environ) = main_build_args environ"
      using False by (simp add: main_build_args_def kv)
    ultimately show ?thesis using ih by (simp add: kv)
  qed
qed

lemma build_args_distinct:
  "distinct (map fst environ) \<Longrightarrow> distinct (map fst (main_build_args environ))"
proof (induction environ)
  case Nil
  show ?case by (simp add: main_build_args_def)
next
  case (Cons kv environ)
  obtain k' v' where kv: "kv = (k', v')" by (cases kv)
  from Cons have ih: "distinct (map fst (main_build_args environ))" by simp
  show ?case
  proof (cases "startswith k' ''BUILD_ARG_''")
    case True
    have step: "main_build_args (kv # environ) = (drop 10 k', v') # main_build_args environ"
      using True by (simp add: main_build_args_def kv)
    have "drop 10 k' \<notin> fst ` set (main_build_args environ)"
    proof
      assume "drop 10 k' \<in> fst ` set (main_build_args environ)"
      then obtain v where "(drop 10 k', v) \<in> set (main_build_args environ)" by auto
      then have "(''BUILD_ARG_'' @ drop 10 k', v) \<in> set environ" by (simp only: build_args_mem)
      with startswith_build_arg [OF True] have "(k', v) \<in> set environ" by simp
      then have "k' \<in> fst ` set environ" by force
      with Cons.prems kv show False by simp
    qed
    with ih step show ?thesis by simp
  next
    case False
    have "main_build_args (kv # environ) = main_build_args environ"
      using False by (simp add: main_build_args_def kv)
    with ih show ?thesis by simp
  qed
qed

text \<open>
  C6.  The build-argument map holds the value of \<^verbatim>\<open>BUILD_ARG_\<close>\<open>k\<close> under the key \<open>k\<close>
  and nothing else: looking \<open>k\<close> up in it is looking \<^verbatim>\<open>BUILD_ARG_\<close>\<open>k\<close> up in the
  environment, its items are the items of the environment whose name carries the
  prefix, with the prefix removed, it has as many items as the environment has
  variables with the prefix, and its keys are distinct when the names of the
  environment are.
\<close>

theorem main_build_args_exact:
  "(\<forall>k. map_of (main_build_args environ) k = map_of environ (''BUILD_ARG_'' @ k))
   \<and> (\<forall>k v. (k, v) \<in> set (main_build_args environ) \<longleftrightarrow> (''BUILD_ARG_'' @ k, v) \<in> set environ)
   \<and> length (main_build_args environ)
       = length (filter (\<lambda>(k, v). startswith k ''BUILD_ARG_'') environ)
   \<and> (distinct (map fst environ) \<longrightarrow> distinct (map fst (main_build_args environ)))"
proof -
  have "length (main_build_args environ)
       = length (filter (\<lambda>(k, v). startswith k ''BUILD_ARG_'') environ)"
    by (simp add: main_build_args_def)
  then show ?thesis
    using build_args_map_of build_args_mem build_args_distinct by blast
qed

theorem main_build_args_exact_witness:
  "distinct (map fst [(''HOME'', ''/root''), (''BUILD_ARG_SG_BASE_IMAGE'', ''registry/sg/base:latest'')])
   \<and> distinct (map fst (main_build_args
        [(''HOME'', ''/root''), (''BUILD_ARG_SG_BASE_IMAGE'', ''registry/sg/base:latest'')]))"
proof -
  have d: "distinct (map fst [(''HOME'', ''/root''), (''BUILD_ARG_SG_BASE_IMAGE'', ''registry/sg/base:latest'')])"
    by simp
  from main_build_args_exact [of "[(''HOME'', ''/root''), (''BUILD_ARG_SG_BASE_IMAGE'', ''registry/sg/base:latest'')]"] d
  have "distinct (map fst (main_build_args
        [(''HOME'', ''/root''), (''BUILD_ARG_SG_BASE_IMAGE'', ''registry/sg/base:latest'')]))"
    by blast
  with d show ?thesis by (rule conjI)
qed

subsection \<open>Amazon mode\<close>

lemma split_length: "length (split s sep) = Suc (count_list s sep)"
  by (induction s) (auto split: list.splits)

lemma amazon_entry_malformed:
  assumes "b64decode w (authorizationToken bad) = Inr creds"
    and "count_list creds CHR '':'' \<noteq> 1"
  shows "amazon_entry w pth rp ts wp build_args bad h = (h, Inl ValueError)"
proof -
  from assms(2) have "length (split creds CHR '':'') \<noteq> 2" by (simp add: split_length)
  then have "\<nexists>user pswd. split creds CHR '':'' = [user, pswd]" by auto
  then show ?thesis using assms(1)
    by (auto simp: amazon_entry_def Let_def raise_def split: list.splits)
qed

lemma amazon_entries_append:
  "amazon_entries w pth rp ts wp build_args (pre @ post) =
     and_then (amazon_entries w pth rp ts wp build_args pre)
       (\<lambda>_. amazon_entries w pth rp ts wp build_args post)"
proof (induction pre)
  case Nil
  show ?case by (rule ext) (simp add: and_then_def ret_def)
next
  case (Cons au pre)
  then show ?case by (simp add: and_then_assoc)
qed

lemma amazon_entries_malformed:
  assumes "b64decode w (authorizationToken bad) = Inr creds"
    and "count_list creds CHR '':'' \<noteq> 1"
  shows "amazon_entries w pth rp ts wp build_args (pre @ bad # post) h =
           (case amazon_entries w pth rp ts wp build_args pre h of
              (h', Inl e) \<Rightarrow> (h', Inl e)
            | (h', Inr u) \<Rightarrow> (h', Inl ValueError))"
  by (simp add: amazon_entries_append and_then_def amazon_entry_malformed [OF assms]
      split: prod.splits sum.splits)

lemma amazon_entry_ok:
  assumes "amazon_entry w pth rp ts wp build_args au h = (h', Inr ())"
  shows "entry_credentials w au \<noteq> None
    \<and> (\<exists>t. h' = h @ t \<and> filter is_operation t = entry_calls w pth rp ts wp build_args au)"
proof -
  let ?reg = "replace (proxyEndpoint au) ''https://'' []"
  from assms obtain creds where dec: "b64decode w (authorizationToken au) = Inr creds"
    by (auto simp: amazon_entry_def Let_def raise_def split: sum.splits)
  from assms dec obtain user pswd where sp: "split creds CHR '':'' = [user, pswd]"
    by (auto simp: amazon_entry_def Let_def raise_def split: list.splits)
  from dec sp have cr: "entry_credentials w au = Some (user, pswd)"
    by (simp add: entry_credentials_def)
  from assms dec sp have
    "build w pth ?reg rp ts wp build_args (h @ [Login (Some user) (Some pswd) ?reg]) = (h', Inr ())"
    by (auto simp: amazon_entry_def Let_def and_then_def call_def split: sum.splits)
  from build_ok [OF this] obtain t where
    t: "h' = (h @ [Login (Some user) (Some pswd) ?reg]) @ t"
       "filter is_operation t = concat (map (tag_calls pth ?reg rp wp build_args) ts)"
    by blast
  have "h' = h @ (Login (Some user) (Some pswd) ?reg # t)" using t(1) by simp
  moreover have "filter is_operation (Login (Some user) (Some pswd) ?reg # t)
     = entry_calls w pth rp ts wp build_args au"
    using t(2) cr by (simp add: entry_calls_def is_operation_def)
  ultimately show ?thesis using cr by blast
qed

lemma amazon_entries_ok:
  assumes "amazon_entries w pth rp ts wp build_args aus h = (h', Inr ())"
  shows "(\<forall>au\<in>set aus. entry_credentials w au \<noteq> None)
    \<and> (\<exists>t. h' = h @ t
          \<and> filter is_operation t = concat (map (entry_calls w pth rp ts wp build_args) aus))"
  using assms
proof (induction aus arbitrary: h h')
  case Nil
  then show ?case by (simp add: ret_def)
next
  case (Cons au aus)
  from Cons.prems obtain h1 where
    h1: "amazon_entry w pth rp ts wp build_args au h = (h1, Inr ())" and
    rest: "amazon_entries w pth rp ts wp build_args aus h1 = (h', Inr ())"
    by (auto simp: and_then_def split: prod.splits sum.splits)
  from amazon_entry_ok [OF h1] obtain t1 where
    t1: "entry_credentials w au \<noteq> None" "h1 = h @ t1"
        "filter is_operation t1 = entry_calls w pth rp ts wp build_args au"
    by blast
  from Cons.IH [OF rest] obtain t2 where
    t2: "\<forall>au\<in>set aus. entry_credentials w au \<noteq> None" "h' = h1 @ t2"
        "filter is_operation t2 = concat (map (entry_calls w pth rp ts wp build_args) aus)"
    by blast
  have "h' = h @ (t1 @ t2)" using t1(2) t2(2) by simp
  moreover have "filter is_operation (t1 @ t2)
      = concat (map (entry_calls w pth rp ts wp build_args) (au # aus))"
    using t1(3) t2(3) by simp
  ultimately show ?case using t1(1) t2(1) by auto
qed

lemma amazon_mode_ok:
  assumes "amazon_mode w a pth rp ts build_args h = (h', Inr ())"
  shows "\<exists>response t.
      get_authorization_token w
          (h @ [Log Info ''running in AMAZON mode'' [],
                Log Info ''attempting to get ECR registry token'' [],
                ImportBoto3, Boto3Client (amazon_region a)]) (scoped_ids a) = Inr response
    \<and> h' = (h @ [Log Info ''running in AMAZON mode'' [],
                Log Info ''attempting to get ECR registry token'' [],
                ImportBoto3, Boto3Client (amazon_region a)])
             @ GetAuthorizationToken (scoped_ids a) # t
    \<and> (\<forall>au\<in>set response. entry_credentials w au \<noteq> None)
    \<and> filter is_operation t
        = concat (map (entry_calls w pth rp ts (will_push a) build_args) response)"
proof -
  let ?pre = "h @ [Log Info ''running in AMAZON mode'' [],
                Log Info ''attempting to get ECR registry token'' [],
                ImportBoto3, Boto3Client (amazon_region a)]"
  have tok: "(case amazon_registry_ids a of
                  None \<Rightarrow> call (GetAuthorizationToken None)
                            (\<lambda>h. get_authorization_token w h None)
                | Some ids \<Rightarrow>
                    if ids = []
                    then call (GetAuthorizationToken None)
                           (\<lambda>h. get_authorization_token w h None)
                    else call (GetAuthorizationToken (Some ids))
                           (\<lambda>h. get_authorization_token w h (Some ids)))
     = call (GetAuthorizationToken (scoped_ids a)) (\<lambda>h. get_authorization_token w h (scoped_ids a))"
    by (simp add: scoped_ids_def split: option.splits)
  from assms obtain response where
    r: "get_authorization_token w ?pre (scoped_ids a) = Inr response" and
    e: "amazon_entries w pth rp ts (will_push a) build_args response
          (?pre @ [GetAuthorizationToken (scoped_ids a), Log Debug ''{}'' [Response response]])
        = (h', Inr ())"
    unfolding amazon_mode_def tok
    by (auto simp: and_then_def call_def log_info_def log_debug_def
        split: sum.splits prod.splits)
  from amazon_entries_ok [OF e] obtain t where
    t: "\<forall>au\<in>set response. entry_credentials w au \<noteq> None"
       "h' = (?pre @ [GetAuthorizationToken (scoped_ids a), Log Debug ''{}'' [Response response]]) @ t"
       "filter is_operation t
          = concat (map (entry_calls w pth rp ts (will_push a) build_args) response)"
    by blast
  have "h' = ?pre @ GetAuthorizationToken (scoped_ids a) # (Log Debug ''{}'' [Response response] # t)"
    using t(2) by simp
  moreover have "filter is_operation (Log Debug ''{}'' [Response response] # t)
     = concat (map (entry_calls w pth rp ts (will_push a) build_args) response)"
    using t(3) by (simp add: is_operation_def)
  ultimately show ?thesis using r t(1) by blast
qed

lemma startup_no_operation:
  "filter is_operation (fst (startup w a environ0 h)) = filter is_operation h"
  by (auto simp: startup_def log_handler_def load_env_def and_then_def call_def ret_def
      log_info_def is_operation_def split: option.splits sum.splits prod.splits)

lemma filter_authorization_tag_calls:
  "filter is_authorization (concat (map (tag_calls pth reg rp wp build_args) ts)) = []"
  by (induction ts) (simp_all add: tag_calls_def is_authorization_def)

lemma filter_authorization_entry_calls:
  "filter is_authorization (concat (map (entry_calls w pth rp ts wp build_args) aus)) = []"
proof -
  have login: "\<And>user pswd reg. \<not> is_authorization (Login user pswd reg)"
    by (simp add: is_authorization_def)
  have "filter is_authorization (entry_calls w pth rp ts wp build_args au) = []" for au
    by (cases "entry_credentials w au")
       (auto simp: entry_calls_def login filter_authorization_tag_calls)
  then show ?thesis by (induction aus) simp_all
qed

lemma filter_authorization_operation:
  "filter is_authorization (filter is_operation t) = filter is_authorization t"
  by (induction t) (auto simp: is_authorization_def is_operation_def split: event.splits)

lemma main_amazon_ok:
  assumes run: "main w a environ0 = (t, Inr ())" and am: "is_amazon_mode a"
  shows "\<exists>environ h response t'.
      snd (startup w a environ0 []) = Inr environ
    \<and> t = h @ GetAuthorizationToken (scoped_ids a) # t'
    \<and> filter is_operation h = []
    \<and> get_authorization_token w h (scoped_ids a) = Inr response
    \<and> (\<forall>au\<in>set response. entry_credentials w au \<noteq> None)
    \<and> filter is_operation t'
        = concat (map (entry_calls w (path a) (main_repo a environ)
              (set_iter w (main_tags a environ)) (will_push a) (main_build_args environ)) response)"
proof -
  from run obtain h0 environ where
    st: "startup w a environ0 [] = (h0, Inr environ)" and
    af: "after_startup w a environ h0 = (t, Inr ())"
    by (auto simp: main_startup and_then_def split: prod.splits sum.splits)
  from startup_no_operation [of w a environ0 "[]"] st have h0: "filter is_operation h0 = []"
    by simp
  let ?pth = "path a" and ?rp = "main_repo a environ"
  let ?ts = "set_iter w (main_tags a environ)" and ?ba = "main_build_args environ"
  from af am obtain h1 where
    am_run: "amazon_mode w a ?pth ?rp ?ts ?ba (h0 @ [FromEnv]) = (h1, Inr ())" and
    fin: "t = h1 @ [Log Info ''finished'' []]"
    by (auto simp: after_startup_def and_then_def call_def log_info_def
        split: prod.splits sum.splits)
  let ?pre = "(h0 @ [FromEnv]) @ [Log Info ''running in AMAZON mode'' [],
                Log Info ''attempting to get ECR registry token'' [],
                ImportBoto3, Boto3Client (amazon_region a)]"
  from amazon_mode_ok [OF am_run] obtain response t1 where
    r: "get_authorization_token w ?pre (scoped_ids a) = Inr response"
       "h1 = ?pre @ GetAuthorizationToken (scoped_ids a) # t1"
       "\<forall>au\<in>set response. entry_credentials w au \<noteq> None"
       "filter is_operation t1 = concat (map (entry_calls w ?pth ?rp ?ts (will_push a) ?ba) response)"
    by blast
  have 1: "t = ?pre @ GetAuthorizationToken (scoped_ids a) # (t1 @ [Log Info ''finished'' []])"
    using fin r(2) by simp
  have 2: "filter is_operation ?pre = []" using h0 by (simp add: is_operation_def)
  have 3: "filter is_operation (t1 @ [Log Info ''finished'' []])
     = concat (map (entry_calls w ?pth ?rp ?ts (will_push a) ?ba) response)"
    using r(4) by (simp add: is_operation_def)
  from st have 0: "snd (startup w a environ0 []) = Inr environ" by simp
  from 0 1 2 r(1) r(3) 3 show ?thesis by blast
qed

lemma amazon_mode_first_malformed:
  assumes resp: "\<And>h ids. get_authorization_token w h ids = Inr (bad # post)"
    and dec: "b64decode w (authorizationToken bad) = Inr creds"
    and cnt: "count_list creds CHR '':'' \<noteq> 1"
  shows "\<exists>t e. amazon_mode w a pth rp ts build_args h = (h @ t, Inl e)
     \<and> filter (\<lambda>ev. is_operation ev \<and> \<not> is_authorization ev) t = []"
  using amazon_entries_malformed [OF dec cnt, where pre = "[]"]
  by (auto simp: amazon_mode_def and_then_def call_def log_info_def log_debug_def resp ret_def
      is_operation_def is_authorization_def split: sum.splits prod.splits option.splits)

lemma startup_no_login_build_push:
  "filter (\<lambda>ev. is_operation ev \<and> \<not> is_authorization ev) (fst (startup w a environ0 [])) = []"
proof -
  have "filter (\<lambda>ev. is_operation ev \<and> \<not> is_authorization ev) (fst (startup w a environ0 []))
     = filter (\<lambda>ev. \<not> is_authorization ev) (filter is_operation (fst (startup w a environ0 [])))"
    by (simp add: conj_commute)
  then show ?thesis by (simp add: startup_no_operation)
qed

lemma main_first_malformed:
  assumes am: "is_amazon_mode a"
    and resp: "\<And>h ids. get_authorization_token w h ids = Inr (bad # post)"
    and dec: "b64decode w (authorizationToken bad) = Inr creds"
    and cnt: "count_list creds CHR '':'' \<noteq> 1"
  shows "snd (main w a environ0) \<noteq> Inr ()
     \<and> filter (\<lambda>ev. is_operation ev \<and> \<not> is_authorization ev) (fst (main w a environ0)) = []"
proof (cases "startup w a environ0 []")
  case (Pair h0 r)
  from startup_no_login_build_push [of w a environ0] Pair
  have h0: "filter (\<lambda>ev. is_operation ev \<and> \<not> is_authorization ev) h0 = []" by simp
  show ?thesis
  proof (cases r)
    case (Inl e)
    with Pair h0 show ?thesis by (simp add: main_startup and_then_def)
  next
    case (Inr environ)
    from amazon_mode_first_malformed [OF resp dec cnt, of a "path a" "main_repo a environ"
        "set_iter w (main_tags a environ)" "main_build_args environ" "h0 @ [FromEnv]"]
    obtain t e where
      t: "amazon_mode w a (path a) (main_repo a environ)
            (set_iter w (main_tags a environ)) (main_build_args environ) (h0 @ [FromEnv])
          = ((h0 @ [FromEnv]) @ t, Inl e)"
         "filter (\<lambda>ev. is_operation ev \<and> \<not> is_authorization ev) t = []"
      by blast
    show ?thesis
    proof (cases "from_env w h0")
      case fe: (Inl e')
      with Pair Inr h0 show ?thesis
        by (simp add: main_startup and_then_def after_startup_def call_def is_operation_def)
    next
      case fe: (Inr u)
      with Pair Inr h0 t am show ?thesis
        by (simp add: main_startup and_then_def after_startup_def call_def is_operation_def)
    qed
  qed
qed

text \<open>
  C2 (as the code has it).  The entries of the authorization data are handled one after
  the other, each token being decoded only when the login, builds and pushes of the
  entries before it have been made.  At an entry whose decoded token does not contain
  exactly one \<open>:\<close> the loop stops with \<^verbatim>\<open>ValueError\<close> and makes no further call: no
  login, build or push for that entry or for any later one, while the calls for the
  entries before it have been made.  When the malformed entry is the first of the
  response, the whole run fails without any login, build or push.
\<close>

theorem malformed_token_aborts:
  assumes "b64decode w (authorizationToken bad) = Inr creds"
    and "count_list creds CHR '':'' \<noteq> 1"
  shows "amazon_entries w pth rp ts wp build_args (pre @ bad # post) h =
           (case amazon_entries w pth rp ts wp build_args pre h of
              (h', Inl e) \<Rightarrow> (h', Inl e)
            | (h', Inr u) \<Rightarrow> (h', Inl ValueError))
    \<and> (is_amazon_mode a \<and> (\<forall>h ids. get_authorization_token w h ids = Inr (bad # post)) \<longrightarrow>
          snd (main w a environ0) \<noteq> Inr ()
        \<and> filter (\<lambda>ev. is_operation ev \<and> \<not> is_authorization ev) (fst (main w a environ0)) = [])"
  using amazon_entries_malformed [OF assms] main_first_malformed [OF _ _ assms]
  by blast

theorem malformed_token_aborts_witness:
  "amazon_entries example_world ''.'' ''app'' [''latest''] False []
       ([first_entry] @ malformed_entry # [second_entry]) []
     = ([Login (Some ''user'') (Some ''pass'') ''111.ecr.example'',
         Log Info ''building docker image {}'' [Str ''111.ecr.example/app:latest''],
         Build ''.'' ''111.ecr.example/app:latest'' True True [],
         Log Info ''completed building image'' []], Inl ValueError)"
proof -
  have dec: "b64decode example_world (authorizationToken malformed_entry) = Inr ''userpass''"
    by (simp add: example_world_def malformed_entry_def)
  have cnt: "count_list ''userpass'' CHR '':'' \<noteq> 1" by simp
  have pre: "amazon_entries example_world ''.'' ''app'' [''latest''] False [] [first_entry] []
     = ([Login (Some ''user'') (Some ''pass'') ''111.ecr.example'',
         Log Info ''building docker image {}'' [Str ''111.ecr.example/app:latest''],
         Build ''.'' ''111.ecr.example/app:latest'' True True [],
         Log Info ''completed building image'' []], Inr ())"
    by code_simp
  from malformed_token_aborts [OF dec cnt, where pre = "[first_entry]" and post = "[second_entry]"
      and pth = "''.''" and rp = "''app''" and ts = "[''latest'']" and wp = False
      and build_args = "[]" and h = "[]"]
  have "amazon_entries example_world ''.'' ''app'' [''latest''] False []
       ([first_entry] @ malformed_entry # [second_entry]) []
     = (case amazon_entries example_world ''.'' ''app'' [''latest''] False [] [first_entry] [] of
          (h', Inl e) \<Rightarrow> (h', Inl e) | (h', Inr u) \<Rightarrow> (h', Inl ValueError))"
    by (rule conjunct1)
  then show ?thesis unfolding pre by simp
qed

text \<open>The claim as the specification states it fails when the malformed entry is
  not the first: the image has been built for, and pushed to, the first registry when
  the second token stops the run.\<close>

theorem malformed_token_counterexample:
  "b64decode malformed_second_world (authorizationToken malformed_entry) = Inr ''userpass''
   \<and> main malformed_second_world amazon_args [] =
       ([LookupLevel ''INFO'', FindDotenv ''.env'',
         Log Info ''loading environment from {}'' [Str []], LoadDotenv [],
         FromEnv, Log Info ''running in AMAZON mode'' [],
         Log Info ''attempting to get ECR registry token'' [], ImportBoto3,
         Boto3Client None, GetAuthorizationToken (Some [''111'', ''222'']),
         Log Debug ''{}'' [Response [first_entry, malformed_entry]],
         Login (Some ''user'') (Some ''pass'') ''111.ecr.example'',
         Log Info ''building docker image {}'' [Str ''111.ecr.example/app:latest''],
         Build ''.'' ''111.ecr.example/app:latest'' True True [],
         Log Info ''completed building image'' [],
         Log Info ''attempting to push image to {}'' [Str ''111.ecr.example''],
         Push ''111.ecr.example/app'' ''latest'' True, Log Debug ''pushed'' [],
         Log Info ''successfully pushed image'' []],
        Inl ValueError)"
proof (rule conjI)
  show "b64decode malformed_second_world (authorizationToken malformed_entry) = Inr ''userpass''"
    by (simp add: malformed_second_world_def example_world_def malformed_entry_def)
  show "main malformed_second_world amazon_args [] =
       ([LookupLevel ''INFO'', FindDotenv ''.env'',
         Log Info ''loading environment from {}'' [Str []], LoadDotenv [],
         FromEnv, Log Info ''running in AMAZON mode'' [],
         Log Info ''attempting to get ECR registry token'' [], ImportBoto3,
         Boto3Client None, GetAuthorizationToken (Some [''111'', ''222'']),
         Log Debug ''{}'' [Response [first_entry, malformed_entry]],
         Login (Some ''user'') (Some ''pass'') ''111.ecr.example'',
         Log Info ''building docker image {}'' [Str ''111.ecr.example/app:latest''],
         Build ''.'' ''111.ecr.example/app:latest'' True True [],
         Log Info ''completed building image'' [],
         Log Info ''attempting to push image to {}'' [Str ''111.ecr.example''],
         Push ''111.ecr.example/app'' ''latest'' True, Log Debug ''pushed'' [],
         Log Info ''successfully pushed image'' []],
        Inl ValueError)"
    by code_simp
qed

text \<open>
  C8.  A run in Amazon mode with a non-empty list of registry ids that finishes has made
  exactly one authorization call, scoped to that list, and after it, for each entry of
  the response in the order of the list, one login with the entry's credentials to the
  entry's registry followed by the build (and, under the push flag, the push) of every
  tag of the tag set: two entries give two full cycles.
\<close>

theorem amazon_authorization_and_cycles:
  assumes "main w a environ0 = (t, Inr ())" and "is_amazon_mode a"
    and "amazon_registry_ids a = Some ids" and "ids \<noteq> []"
  shows "\<exists>environ h response t'.
      snd (startup w a environ0 []) = Inr environ
    \<and> t = h @ GetAuthorizationToken (Some ids) # t'
    \<and> get_authorization_token w h (Some ids) = Inr response
    \<and> filter is_authorization t = [GetAuthorizationToken (Some ids)]
    \<and> (\<forall>au\<in>set response. entry_credentials w au \<noteq> None)
    \<and> filter is_operation t
        = GetAuthorizationToken (Some ids)
            # concat (map (entry_calls w (path a) (main_repo a environ)
                (set_iter w (main_tags a environ)) (will_push a) (main_build_args environ))
                response)"
proof -
  from assms(3,4) have sc: "scoped_ids a = Some ids" by (simp add: scoped_ids_def)
  let ?calls = "\<lambda>environ. entry_calls w (path a) (main_repo a environ)
                (set_iter w (main_tags a environ)) (will_push a) (main_build_args environ)"
  from main_amazon_ok [OF assms(1,2)] obtain environ h response t' where
    m: "snd (startup w a environ0 []) = Inr environ"
       "t = h @ GetAuthorizationToken (Some ids) # t'"
       "filter is_operation h = []"
       "get_authorization_token w h (Some ids) = Inr response"
       "\<forall>au\<in>set response. entry_credentials w au \<noteq> None"
       "filter is_operation t' = concat (map (?calls environ) response)"
    unfolding sc by blast
  have ops: "filter is_operation t
      = GetAuthorizationToken (Some ids) # concat (map (?calls environ) response)"
    using m(2,3,6) by (simp add: is_operation_def)
  have "filter is_authorization t = filter is_authorization (filter is_operation t)"
    by (simp only: filter_authorization_operation)
  also have "\<dots> = [GetAuthorizationToken (Some ids)]"
    unfolding ops by (simp add: filter_authorization_entry_calls is_authorization_def)
  finally have one: "filter is_authorization t = [GetAuthorizationToken (Some ids)]" .
  from m(1,2,4,5) one ops show ?thesis by blast
qed

theorem amazon_authorization_and_cycles_witness:
  "main two_entries_world amazon_args [] =
       ([LookupLevel ''INFO'', FindDotenv ''.env'',
         Log Info ''loading environment from {}'' [Str []], LoadDotenv [],
         FromEnv, Log Info ''running in AMAZON mode'' [],
         Log Info ''attempting to get ECR registry token'' [], ImportBoto3,
         Boto3Client None, GetAuthorizationToken (Some [''111'', ''222'']),
         Log Debug ''{}'' [Response [first_entry, second_entry]],
         Login (Some ''user'') (Some ''pass'') ''111.ecr.example'',
         Log Info ''building docker image {}'' [Str ''111.ecr.example/app:latest''],
         Build ''.'' ''111.ecr.example/app:latest'' True True [],
         Log Info ''completed building image'' [],
         Log Info ''attempting to push image to {}'' [Str ''111.ecr.example''],
         Push ''111.ecr.example/app'' ''latest'' True, Log Debug ''pushed'' [],
         Log Info ''successfully pushed image'' [],
         Login (Some ''user'') (Some ''pass'') ''222.ecr.example'',
         Log Info ''building docker image {}'' [Str ''222.ecr.example/app:latest''],
         Build ''.'' ''222.ecr.example/app:latest'' True True [],
         Log Info ''completed building image'' [],
         Log Info ''attempting to push image to {}'' [Str ''222.ecr.example''],
         Push ''222.ecr.example/app'' ''latest'' True, Log Debug ''pushed'' [],
         Log Info ''successfully pushed image'' [], Log Info ''finished'' []],
        Inr ())
   \<and> filter is_authorization (fst (main two_entries_world amazon_args []))
       = [GetAuthorizationToken (Some [''111'', ''222''])]"
proof -
  let ?t = "[LookupLevel ''INFO'', FindDotenv ''.env'',
         Log Info ''loading environment from {}'' [Str []], LoadDotenv [],
         FromEnv, Log Info ''running in AMAZON mode'' [],
         Log Info ''attempting to get ECR registry token'' [], ImportBoto3,
         Boto3Client None, GetAuthorizationToken (Some [''111'', ''222'']),
         Log Debug ''{}'' [Response [first_entry, second_entry]],
         Login (Some ''user'') (Some ''pass'') ''111.ecr.example'',
         Log Info ''building docker image {}'' [Str ''111.ecr.example/app:latest''],
         Build ''.'' ''111.ecr.example/app:latest'' True True [],
         Log Info ''completed building image'' [],
         Log Info ''attempting to push image to {}'' [Str ''111.ecr.example''],
         Push ''111.ecr.example/app'' ''latest'' True, Log Debug ''pushed'' [],
         Log Info ''successfully pushed image'' [],
         Login (Some ''user'') (Some ''pass'') ''222.ecr.example'',
         Log Info ''building docker image {}'' [Str ''222.ecr.example/app:latest''],
         Build ''.'' ''222.ecr.example/app:latest'' True True [],
         Log Info ''completed building image'' [],
         Log Info ''attempting to push image to {}'' [Str ''222.ecr.example''],
         Push ''222.ecr.example/app'' ''latest'' True, Log Debug ''pushed'' [],
         Log Info ''successfully pushed image'' [], Log Info ''finished'' []]"
  have run: "main two_entries_world amazon_args [] = (?t, Inr ())"
    by code_simp
  have am: "is_amazon_mode amazon_args" by (simp add: amazon_args_def)
  have ids: "amazon_registry_ids amazon_args = Some [''111'', ''222'']"
    by (simp add: amazon_args_def)
  have ne: "[''111'', ''222''] \<noteq> []" by simp
  from amazon_authorization_and_cycles [OF run am ids ne]
  have "filter is_authorization ?t = [GetAuthorizationToken (Some [''111'', ''222''])]"
    by blast
  then have "filter is_authorization (fst (main two_entries_world amazon_args []))
       = [GetAuthorizationToken (Some [''111'', ''222''])]"
    unfolding run by simp
  with run show ?thesis by (rule conjI)
qed

subsection \<open>The variable file\<close>

text \<open>
  C1 (as the code has it).  The script checks nothing about the variable file itself.
  When a file is requested (a non-empty name), it asks \<^verbatim>\<open>find_dotenv\<close> for the path
  and hands whatever path comes back to \<^verbatim>\<open>load_dotenv\<close>.  The run ends there exactly
  when one of the two calls raises, with that exception and before any other call;
  when both return, whatever the path (the empty path of a file that was not found
  included), the next call creates the engine client.
\<close>

theorem variable_file_errors:
  assumes "env a = Some name" and "name \<noteq> []" and "log_handler w a [] = (h0, Inr ())"
  shows "(\<forall>e. find_dotenv w h0 name = Inl e \<longrightarrow>
            main w a environ0 = (h0 @ [FindDotenv name], Inl e))
    \<and> (\<forall>p e. find_dotenv w h0 name = Inr p
              \<and> load_dotenv w (h0 @ [FindDotenv name,
                   Log Info ''loading environment from {}'' [Str p]]) p environ0 = Inl e \<longrightarrow>
            main w a environ0 = (h0 @ [FindDotenv name,
                   Log Info ''loading environment from {}'' [Str p], LoadDotenv p], Inl e))
    \<and> (\<forall>p environ. find_dotenv w h0 name = Inr p
              \<and> load_dotenv w (h0 @ [FindDotenv name,
                   Log Info ''loading environment from {}'' [Str p]]) p environ0 = Inr environ \<longrightarrow>
            (\<exists>t. fst (main w a environ0) = h0 @ [FindDotenv name,
                   Log Info ''loading environment from {}'' [Str p], LoadDotenv p, FromEnv] @ t))"
proof (intro conjI allI impI)
  fix e assume "find_dotenv w h0 name = Inl e"
  with assms show "main w a environ0 = (h0 @ [FindDotenv name], Inl e)"
    by (simp add: main_startup startup_def load_env_def and_then_def call_def)
next
  fix p e
  assume "find_dotenv w h0 name = Inr p
              \<and> load_dotenv w (h0 @ [FindDotenv name,
                   Log Info ''loading environment from {}'' [Str p]]) p environ0 = Inl e"
  with assms show "main w a environ0 = (h0 @ [FindDotenv name,
                   Log Info ''loading environment from {}'' [Str p], LoadDotenv p], Inl e)"
    by (simp add: main_startup startup_def load_env_def and_then_def call_def log_info_def)
next
  fix p environ
  assume "find_dotenv w h0 name = Inr p
              \<and> load_dotenv w (h0 @ [FindDotenv name,
                   Log Info ''loading environment from {}'' [Str p]]) p environ0 = Inr environ"
  with assms have "main w a environ0 = after_startup w a environ (h0 @ [FindDotenv name,
                   Log Info ''loading environment from {}'' [Str p], LoadDotenv p])"
    by (simp add: main_startup startup_def load_env_def and_then_def call_def log_info_def)
  with after_startup_from_env [of w a environ "h0 @ [FindDotenv name,
                   Log Info ''loading environment from {}'' [Str p], LoadDotenv p]"]
  show "\<exists>t. fst (main w a environ0) = h0 @ [FindDotenv name,
                   Log Info ''loading environment from {}'' [Str p], LoadDotenv p, FromEnv] @ t"
    by simp
qed

theorem variable_file_errors_witness:
  "main (example_world\<lparr>find_dotenv := (\<lambda>h name. Inl (Raised ''IOError''))\<rparr>) example_args []
     = ([LookupLevel ''INFO'', FindDotenv ''.env''], Inl (Raised ''IOError''))
   \<and> (\<exists>t. fst (main example_world example_args []) =
          [LookupLevel ''INFO''] @ [FindDotenv ''.env'',
             Log Info ''loading environment from {}'' [Str []], LoadDotenv [], FromEnv] @ t)"
proof -
  let ?w = "example_world\<lparr>find_dotenv := (\<lambda>h name. Inl (Raised ''IOError''))\<rparr>"
  have e: "env example_args = Some ''.env''" by (simp add: example_args_def)
  have n: "''.env'' \<noteq> []" by simp
  have l: "log_handler ?w example_args [] = ([LookupLevel ''INFO''], Inr ())"
    by code_simp
  have f: "find_dotenv ?w [LookupLevel ''INFO''] ''.env'' = Inl (Raised ''IOError'')"
    by simp
  from variable_file_errors [OF e n l, of "[]"] f
  have one: "main ?w example_args []
     = ([LookupLevel ''INFO''] @ [FindDotenv ''.env''], Inl (Raised ''IOError''))"
    by blast
  have l': "log_handler example_world example_args [] = ([LookupLevel ''INFO''], Inr ())"
    by code_simp
  have f': "find_dotenv example_world [LookupLevel ''INFO''] ''.env'' = Inr []
      \<and> load_dotenv example_world ([LookupLevel ''INFO''] @ [FindDotenv ''.env'',
           Log Info ''loading environment from {}'' [Str []]]) [] [] = Inr []"
    by (simp add: example_world_def)
  from variable_file_errors [OF e n l', of "[]"] f'
  have two: "\<exists>t. fst (main example_world example_args []) =
          [LookupLevel ''INFO''] @ [FindDotenv ''.env'',
             Log Info ''loading environment from {}'' [Str []], LoadDotenv [], FromEnv] @ t"
    by blast
  from one two show ?thesis by simp
qed

text \<open>The claim as the specification states it fails: with the default \<^verbatim>\<open>.env\<close>
  requested and \<^verbatim>\<open>find_dotenv\<close> reporting no file (the empty path), the run logs
  in, builds and finishes.\<close>

theorem variable_file_counterexample:
  "env example_args = Some ''.env''
   \<and> find_dotenv example_world [LookupLevel ''INFO''] ''.env'' = Inr []
   \<and> main example_world example_args [] =
       ([LookupLevel ''INFO'', FindDotenv ''.env'',
         Log Info ''loading environment from {}'' [Str []], LoadDotenv [],
         FromEnv,
         Log Info ''attempting to login to {} as {}'' [Str [], OptStr None],
         Login None None [], Log Info ''successfully logged in'' [],
         Log Debug ''{}'' [Str ''Login Succeeded''],
         Log Info ''building docker image {}'' [Str ''/:latest''],
         Build ''.'' ''/:latest'' True True [],
         Log Info ''completed building image'' [], Log Info ''finished'' []],
        Inr ())"
proof (intro conjI)
  show "env example_args = Some ''.env''" by (simp add: example_args_def)
  show "find_dotenv example_world [LookupLevel ''INFO''] ''.env'' = Inr []"
    by (simp add: example_world_def)
  show "main example_world example_args [] =
       ([LookupLevel ''INFO'', FindDotenv ''.env'',
         Log Info ''loading environment from {}'' [Str []], LoadDotenv [],
         FromEnv,
         Log Info ''attempting to login to {} as {}'' [Str [], OptStr None],
         Login None None [], Log Info ''successfully logged in'' [],
         Log Debug ''{}'' [Str ''Login Succeeded''],
         Log Info ''building docker image {}'' [Str ''/:latest''],
         Build ''.'' ''/:latest'' True True [],
         Log Info ''completed building image'' [], Log Info ''finished'' []],
        Inr ())"
    by code_simp
qed

subsection \<open>Amazon mode and the flags of vanilla mode\<close>

text \<open>
  C7.  In Amazon mode, a run with another \<^verbatim>\<open>--registry\<close> value and with or without
  \<^verbatim>\<open>--no-login\<close>, in the same world and environment, is the same run: the same
  trace, hence the same authorization, login, build and push calls with the same
  arguments, and the same result.
\<close>

theorem amazon_ignores_registry_and_login:
  assumes "is_amazon_mode a"
  shows "main w (a\<lparr>registry := r, will_login := b\<rparr>) environ0 = main w a environ0"
  using assms
  by (simp add: main_def main_prog_def log_handler_def load_env_def amazon_mode_def
      main_repo_def main_tags_def)

theorem amazon_ignores_registry_and_login_witness:
  "is_amazon_mode (example_args\<lparr>is_amazon_mode := True\<rparr>)
   \<and> main example_world
        (example_args\<lparr>is_amazon_mode := True, registry := Some ''other.example'', will_login := False\<rparr>) []
       = main example_world (example_args\<lparr>is_amazon_mode := True\<rparr>) []"
proof -
  have m: "is_amazon_mode (example_args\<lparr>is_amazon_mode := True\<rparr>)" by simp
  have "main example_world
        (example_args\<lparr>is_amazon_mode := True, registry := Some ''other.example'', will_login := False\<rparr>) []
       = main example_world (example_args\<lparr>is_amazon_mode := True\<rparr>) []"
    using amazon_ignores_registry_and_login [OF m, where w = example_world
        and r = "Some ''other.example''" and b = False and ?environ0.0 = "[]"]
    by simp
  with m show ?thesis by (rule conjI)
qed

subsection \<open>Vanilla mode\<close>

lemma nr_build_tag:
  assumes "never_raises w"
  shows "build_tag w pth reg rp wp build_args tag h
     = (h @ tag_events w pth reg rp wp build_args tag h, Inr ())"
proof -
  from assms have b: "\<And>h pth t rm pull build_args. images_build w h pth t rm pull build_args = Inr ()"
    and p: "\<And>h name tag stream. snd (images_push w h name tag stream) = None"
    unfolding never_raises_def by blast+
  show ?thesis
    by (simp add: build_tag_def tag_events_def Let_def and_then_def log_info_def call_def
        push_stream_run ret_def b p)
qed

lemma filter_build_tag_calls:
  "filter is_build (concat (map (tag_calls pth reg rp wp build_args) ts))
     = map (\<lambda>tag. Build pth (reg @ ''/'' @ rp @ '':'' @ tag) True True build_args) ts"
  by (induction ts) (simp_all add: tag_calls_def is_build_def)

lemma filter_build_operation:
  "filter is_build (filter is_operation t) = filter is_build t"
  by (induction t) (auto simp: is_build_def is_operation_def split: event.splits)

lemma nr_build:
  assumes "never_raises w"
  shows "\<exists>t. build w pth reg rp ts wp build_args h = (h @ t, Inr ())
    \<and> filter is_operation t = concat (map (tag_calls pth reg rp wp build_args) ts)"
proof (induction ts arbitrary: h)
  case Nil
  show ?case by (simp add: ret_def)
next
  case (Cons tag ts)
  let ?seg = "tag_events w pth reg rp wp build_args tag h"
  from Cons [of "h @ ?seg"] obtain t where
    t: "build w pth reg rp ts wp build_args (h @ ?seg) = ((h @ ?seg) @ t, Inr ())"
       "filter is_operation t = concat (map (tag_calls pth reg rp wp build_args) ts)"
    by blast
  have "build w pth reg rp (tag # ts) wp build_args h = (h @ (?seg @ t), Inr ())"
    using t(1) by (simp add: and_then_def nr_build_tag [OF assms])
  moreover have "filter is_operation (?seg @ t)
     = concat (map (tag_calls pth reg rp wp build_args) (tag # ts))"
    using t(2) by (simp add: tag_events_calls)
  ultimately show ?case by blast
qed

lemma vanilla_mode_ok:
  assumes "vanilla_mode w a environ pth rp ts build_args h = (h', Inr ())"
  shows "\<exists>t. h' = h @ t
    \<and> filter is_operation t =
        (if will_login a
         then [Login (main_user a environ) (main_pswd a environ) (main_registry a environ)]
         else [])
        @ concat (map (tag_calls pth (main_registry a environ) rp (will_push a) build_args) ts)"
proof (cases "will_login a")
  case False
  with assms have "build w pth (main_registry a environ) rp ts (will_push a) build_args h = (h', Inr ())"
    by (simp add: vanilla_mode_def Let_def and_then_def ret_def)
  from build_ok [OF this] False show ?thesis by auto
next
  case True
  let ?reg = "main_registry a environ" and ?user = "main_user a environ"
    and ?pswd = "main_pswd a environ"
  from assms True obtain resp where
    "build w pth ?reg rp ts (will_push a) build_args
       (h @ [Log Info ''attempting to login to {} as {}'' [Str ?reg, OptStr ?user],
             Login ?user ?pswd ?reg,
             Log Info ''successfully logged in'' [],
             Log Debug ''{}'' [Str resp]]) = (h', Inr ())"
    by (auto simp: vanilla_mode_def Let_def and_then_def call_def log_info_def log_debug_def
        split: sum.splits prod.splits)
  from build_ok [OF this] obtain t where
    t: "h' = (h @ [Log Info ''attempting to login to {} as {}'' [Str ?reg, OptStr ?user],
             Login ?user ?pswd ?reg,
             Log Info ''successfully logged in'' [],
             Log Debug ''{}'' [Str resp]]) @ t"
       "filter is_operation t = concat (map (tag_calls pth ?reg rp (will_push a) build_args) ts)"
    by blast
  have "h' = h @ ([Log Info ''attempting to login to {} as {}'' [Str ?reg, OptStr ?user],
             Login ?user ?pswd ?reg,
             Log Info ''successfully logged in'' [],
             Log Debug ''{}'' [Str resp]] @ t)" using t(1) by simp
  moreover have "filter is_operation ([Log Info ''attempting to login to {} as {}'' [Str ?reg, OptStr ?user],
             Login ?user ?pswd ?reg,
             Log Info ''successfully logged in'' [],
             Log Debug ''{}'' [Str resp]] @ t)
     = [Login ?user ?pswd ?reg] @ concat (map (tag_calls pth ?reg rp (will_push a) build_args) ts)"
    using t(2) by (simp add: is_operation_def)
  ultimately show ?thesis using True by auto
qed

lemma nr_vanilla_mode:
  assumes "never_raises w"
  shows "\<exists>h'. vanilla_mode w a environ pth rp ts build_args h = (h', Inr ())"
proof -
  from assms have l: "\<And>h user pswd reg. \<not> isl (login w h user pswd reg)"
    unfolding never_raises_def by blast
  have b: "\<And>h reg. \<exists>h'. build w pth reg rp ts (will_push a) build_args h = (h', Inr ())"
    using nr_build [OF assms] by blast
  show ?thesis
  proof (cases "will_login a")
    case False
    with b show ?thesis by (simp add: vanilla_mode_def Let_def and_then_def ret_def)
  next
    case True
    let ?h1 = "h @ [Log Info ''attempting to login to {} as {}''
                 [Str (main_registry a environ), OptStr (main_user a environ)]]"
    from l [of ?h1 "main_user a environ" "main_pswd a environ" "main_registry a environ"]
    obtain resp where
      "login w ?h1 (main_user a environ) (main_pswd a environ) (main_registry a environ) = Inr resp"
      by (cases "login w ?h1 (main_user a environ) (main_pswd a environ) (main_registry a environ)") auto
    with True b show ?thesis
      by (simp add: vanilla_mode_def Let_def and_then_def call_def log_info_def log_debug_def)
  qed
qed

lemma main_vanilla_ok:
  assumes run: "main w a environ0 = (t, Inr ())" and v: "\<not> is_amazon_mode a"
    and st: "snd (startup w a environ0 []) = Inr environ"
  shows "filter is_operation t =
        (if will_login a
         then [Login (main_user a environ) (main_pswd a environ) (main_registry a environ)]
         else [])
        @ concat (map (tag_calls (path a) (main_registry a environ) (main_repo a environ)
              (will_push a) (main_build_args environ)) (set_iter w (main_tags a environ)))"
proof -
  from st obtain h0 where st': "startup w a environ0 [] = (h0, Inr environ)"
    by (cases "startup w a environ0 []") auto
  with run have af: "after_startup w a environ h0 = (t, Inr ())"
    by (simp add: main_startup and_then_def)
  from startup_no_operation [of w a environ0 "[]"] st' have h0: "filter is_operation h0 = []"
    by simp
  let ?pth = "path a" and ?rp = "main_repo a environ"
  let ?ts = "set_iter w (main_tags a environ)" and ?ba = "main_build_args environ"
  from af v obtain h1 where
    vm: "vanilla_mode w a environ ?pth ?rp ?ts ?ba (h0 @ [FromEnv]) = (h1, Inr ())" and
    fin: "t = h1 @ [Log Info ''finished'' []]"
    by (auto simp: after_startup_def and_then_def call_def log_info_def
        split: prod.splits sum.splits)
  from vanilla_mode_ok [OF vm] obtain t1 where
    t1: "h1 = (h0 @ [FromEnv]) @ t1"
        "filter is_operation t1 =
        (if will_login a
         then [Login (main_user a environ) (main_pswd a environ) (main_registry a environ)]
         else [])
        @ concat (map (tag_calls ?pth (main_registry a environ) ?rp (will_push a) ?ba) ?ts)"
    by blast
  have "filter is_operation t = filter is_operation t1"
    using fin t1(1) h0 by (simp add: is_operation_def)
  with t1(2) show ?thesis by simp
qed

lemma nr_startup:
  assumes "never_raises w"
  shows "\<exists>h environ. startup w a environ0 [] = (h, Inr environ)"
proof -
  from assms have ll: "\<And>h s. lookup_level w h s = Inr ()"
    and f: "\<And>h s. \<not> isl (find_dotenv w h s)"
    and l: "\<And>h p environ. \<not> isl (load_dotenv w h p environ)"
    unfolding never_raises_def by blast+
  have lh: "\<exists>h. log_handler w a [] = (h, Inr ())"
    by (simp add: log_handler_def ret_def call_def ll)
  then obtain h where h: "log_handler w a [] = (h, Inr ())" by blast
  have "\<exists>h' environ. load_env w a environ0 h = (h', Inr environ)"
  proof (cases "env a")
    case None
    then show ?thesis by (simp add: load_env_def ret_def)
  next
    case (Some name)
    show ?thesis
    proof (cases "name = []")
      case True
      with Some show ?thesis by (simp add: load_env_def ret_def)
    next
      case False
      from f [of h name] obtain p where p: "find_dotenv w h name = Inr p"
        by (cases "find_dotenv w h name") auto
      let ?h = "h @ [FindDotenv name, Log Info ''loading environment from {}'' [Str p]]"
      from l [of ?h p environ0] obtain e where "load_dotenv w ?h p environ0 = Inr e"
        by (cases "load_dotenv w ?h p environ0") auto
      with Some False p show ?thesis
        by (simp add: load_env_def and_then_def call_def log_info_def)
    qed
  qed
  with h show ?thesis by (auto simp: startup_def and_then_def)
qed

lemma nr_main_vanilla:
  assumes nr: "never_raises w" and v: "\<not> is_amazon_mode a"
  shows "\<exists>t. main w a environ0 = (t, Inr ())"
proof -
  from nr_startup [OF nr] obtain h environ where
    st: "startup w a environ0 [] = (h, Inr environ)" by blast
  from nr have fe: "\<And>h. from_env w h = Inr ()" unfolding never_raises_def by blast
  from nr_vanilla_mode [OF nr] obtain h' where
    "vanilla_mode w a environ (path a) (main_repo a environ)
       (set_iter w (main_tags a environ)) (main_build_args environ) (h @ [FromEnv]) = (h', Inr ())"
    by blast
  with st v fe show ?thesis
    by (simp add: main_startup and_then_def after_startup_def call_def log_info_def)
qed

text \<open>
  C10.  With neither \<^verbatim>\<open>--repository\<close> nor \<^verbatim>\<open>BUILD_REPOSITORY\<close> the repository is the
  empty string, and in vanilla mode with neither \<^verbatim>\<open>--registry\<close> nor
  \<^verbatim>\<open>BUILD_REGISTRY\<close> the registry is the empty string.  Nothing in the script objects
  to either: when no collaborator raises, the vanilla run finishes and its builds are
  those of \<open>registry/:tag\<close>, respectively \<open>/repository:tag\<close>, for the tags of the tag
  set; and \<^verbatim>\<open>_build\<close>, in whichever mode it is called with an empty repository,
  returns after building \<open>registry/:tag\<close> for every tag.
\<close>

theorem empty_repository_and_registry:
  assumes "never_raises w" and "snd (startup w a environ0 []) = Inr environ"
  shows "(repository a = None \<and> environ_get environ ''BUILD_REPOSITORY'' = None \<longrightarrow>
            main_repo a environ = []
          \<and> (\<not> is_amazon_mode a \<longrightarrow>
               (\<exists>t. main w a environ0 = (t, Inr ())
                  \<and> filter is_build t =
                      map (\<lambda>tag. Build (path a) (main_registry a environ @ ''/:'' @ tag) True True
                                   (main_build_args environ))
                        (set_iter w (main_tags a environ)))))
    \<and> (\<not> is_amazon_mode a \<and> registry a = None \<and> environ_get environ ''BUILD_REGISTRY'' = None \<longrightarrow>
            main_registry a environ = []
          \<and> (\<exists>t. main w a environ0 = (t, Inr ())
                \<and> filter is_build t =
                    map (\<lambda>tag. Build (path a) (''/'' @ main_repo a environ @ '':'' @ tag) True True
                                 (main_build_args environ))
                      (set_iter w (main_tags a environ))))
    \<and> (\<forall>pth reg ts wp build_args h.
          \<exists>t. build w pth reg [] ts wp build_args h = (h @ t, Inr ())
            \<and> filter is_build t = map (\<lambda>tag. Build pth (reg @ ''/:'' @ tag) True True build_args) ts)"
proof -
  have builds: "filter is_build t =
       map (\<lambda>tag. Build (path a) (main_registry a environ @ ''/'' @ main_repo a environ @ '':'' @ tag)
                     True True (main_build_args environ))
         (set_iter w (main_tags a environ))"
    if "main w a environ0 = (t, Inr ())" and "\<not> is_amazon_mode a" for t
  proof -
    have "filter is_build t = filter is_build (filter is_operation t)"
      by (simp only: filter_build_operation)
    also have "\<dots> = filter is_build (concat (map (tag_calls (path a) (main_registry a environ)
        (main_repo a environ) (will_push a) (main_build_args environ))
        (set_iter w (main_tags a environ))))"
      unfolding main_vanilla_ok [OF that assms(2)] by (simp add: is_build_def)
    finally show ?thesis by (simp only: filter_build_tag_calls)
  qed
  have 1: "repository a = None \<and> environ_get environ ''BUILD_REPOSITORY'' = None \<longrightarrow>
            main_repo a environ = []
          \<and> (\<not> is_amazon_mode a \<longrightarrow>
               (\<exists>t. main w a environ0 = (t, Inr ())
                  \<and> filter is_build t =
                      map (\<lambda>tag. Build (path a) (main_registry a environ @ ''/:'' @ tag) True True
                                   (main_build_args environ))
                        (set_iter w (main_tags a environ))))"
  proof (intro impI conjI)
    assume u: "repository a = None \<and> environ_get environ ''BUILD_REPOSITORY'' = None"
    then show r: "main_repo a environ = []"
      by (simp add: main_repo_def or_str_def environ_get_def environ_get_default_def)
    assume v: "\<not> is_amazon_mode a"
    from nr_main_vanilla [OF assms(1) v] obtain t where t: "main w a environ0 = (t, Inr ())"
      by blast
    from builds [OF t v] r t
    show "\<exists>t. main w a environ0 = (t, Inr ())
                  \<and> filter is_build t =
                      map (\<lambda>tag. Build (path a) (main_registry a environ @ ''/:'' @ tag) True True
                                   (main_build_args environ))
                        (set_iter w (main_tags a environ))"
      by simp
  qed
  have 2: "\<not> is_amazon_mode a \<and> registry a = None \<and> environ_get environ ''BUILD_REGISTRY'' = None \<longrightarrow>
            main_registry a environ = []
          \<and> (\<exists>t. main w a environ0 = (t, Inr ())
                \<and> filter is_build t =
                    map (\<lambda>tag. Build (path a) (''/'' @ main_repo a environ @ '':'' @ tag) True True
                                 (main_build_args environ))
                      (set_iter w (main_tags a environ)))"
  proof (intro impI conjI)
    assume u: "\<not> is_amazon_mode a \<and> registry a = None \<and> environ_get environ ''BUILD_REGISTRY'' = None"
    then show r: "main_registry a environ = []"
      by (simp add: main_registry_def or_str_def environ_get_def environ_get_default_def)
    from u have v: "\<not> is_amazon_mode a" by simp
    from nr_main_vanilla [OF assms(1) v] obtain t where t: "main w a environ0 = (t, Inr ())"
      by blast
    from builds [OF t v] r t
    show "\<exists>t. main w a environ0 = (t, Inr ())
                \<and> filter is_build t =
                    map (\<lambda>tag. Build (path a) (''/'' @ main_repo a environ @ '':'' @ tag) True True
                                 (main_build_args environ))
                      (set_iter w (main_tags a environ))"
      by simp
  qed
  have 3: "\<forall>pth reg ts wp build_args h.
          \<exists>t. build w pth reg [] ts wp build_args h = (h @ t, Inr ())
            \<and> filter is_build t = map (\<lambda>tag. Build pth (reg @ ''/:'' @ tag) True True build_args) ts"
  proof (intro allI)
    fix pth reg ts wp build_args h
    from nr_build [OF assms(1), of pth reg "[]" ts wp build_args h] obtain t where
      t: "build w pth reg [] ts wp build_args h = (h @ t, Inr ())"
         "filter is_operation t = concat (map (tag_calls pth reg [] wp build_args) ts)"
      by blast
    have "filter is_build t = filter is_build (filter is_operation t)"
      by (simp only: filter_build_operation)
    also have "\<dots> = map (\<lambda>tag. Build pth (reg @ ''/:'' @ tag) True True build_args) ts"
      unfolding t(2) by (simp add: filter_build_tag_calls)
    finally show "\<exists>t. build w pth reg [] ts wp build_args h = (h @ t, Inr ())
            \<and> filter is_build t = map (\<lambda>tag. Build pth (reg @ ''/:'' @ tag) True True build_args) ts"
      using t(1) by blast
  qed
  from 1 2 3 show ?thesis by (intro conjI)
qed

lemma never_raises_example_world: "never_raises example_world"
  by (simp add: never_raises_def example_world_def)

theorem empty_repository_and_registry_witness:
  "main_repo example_args [] = [] \<and> main_registry example_args [] = []
   \<and> (\<exists>t. main example_world example_args [] = (t, Inr ())
          \<and> filter is_build t = [Build ''.'' ''/:latest'' True True []])"
proof -
  have st: "snd (startup example_world example_args [] []) = Inr []" by code_simp
  note inst = empty_repository_and_registry [OF never_raises_example_world st]
  have rp: "repository example_args = None \<and> environ_get [] ''BUILD_REPOSITORY'' = None"
    by (simp add: example_args_def environ_get_def)
  have rg: "\<not> is_amazon_mode example_args \<and> registry example_args = None
      \<and> environ_get [] ''BUILD_REGISTRY'' = None"
    by (simp add: example_args_def environ_get_def)
  from inst rp have 1: "main_repo example_args [] = []" by blast
  from inst rg have 2: "main_registry example_args [] = []" by blast
  from inst rg have "\<exists>t. main example_world example_args [] = (t, Inr ())
      \<and> filter is_build t =
          map (\<lambda>tag. Build (path example_args) (''/'' @ main_repo example_args [] @ '':'' @ tag)
                 True True (main_build_args []))
            (set_iter example_world (main_tags example_args []))"
    by blast
  moreover have "map (\<lambda>tag. Build (path example_args) (''/'' @ main_repo example_args [] @ '':'' @ tag)
                 True True (main_build_args []))
            (set_iter example_world (main_tags example_args []))
      = [Build ''.'' ''/:latest'' True True []]"
    by code_simp
  ultimately have 3: "\<exists>t. main example_world example_args [] = (t, Inr ())
          \<and> filter is_build t = [Build ''.'' ''/:latest'' True True []]"
    by simp
  from 1 2 3 show ?thesis by (intro conjI)
qed

subsection \<open>Flags, variables and defaults\<close>

text \<open>
  C3 (as the code has it).  Repository and tags resolve, in both modes, to the flag's
  value when the flag is given with a non-empty value (a non-empty string, a non-empty
  list of tags taken as a set), otherwise to \<^verbatim>\<open>BUILD_REPOSITORY\<close>, \<^verbatim>\<open>BUILD_TAG\<close> when
  set, otherwise to the empty string and to \<open>latest\<close>; \<^verbatim>\<open>--latest\<close> adds \<open>latest\<close> to
  the tags.  Registry, login user and login password resolve the same way from their
  flags and \<^verbatim>\<open>BUILD_REGISTRY\<close>, \<^verbatim>\<open>BUILD_USER\<close>, \<^verbatim>\<open>BUILD_PASSWORD\<close>, with the empty
  string and \<^verbatim>\<open>None\<close> as defaults, and these are the values a run in vanilla mode
  logs in with and builds for.
\<close>

theorem resolution_precedence:
  "main_repo a environ
     = spec_resolve (given (repository a)) (environ_get environ ''BUILD_REPOSITORY'') []
   \<and> main_tags a environ
     = (let ts = spec_resolve (map_option set (given (tags a)))
                   (map_option (\<lambda>v. {v}) (environ_get environ ''BUILD_TAG'')) {''latest''}
        in if will_add_latest a then insert ''latest'' ts else ts)
   \<and> main_registry a environ
     = spec_resolve (given (registry a)) (environ_get environ ''BUILD_REGISTRY'') []
   \<and> main_user a environ
     = spec_resolve (map_option Some (given (login_user a)))
         (map_option Some (environ_get environ ''BUILD_USER'')) None
   \<and> main_pswd a environ
     = spec_resolve (map_option Some (given (login_password a)))
         (map_option Some (environ_get environ ''BUILD_PASSWORD'')) None
   \<and> (\<not> is_amazon_mode a \<and> main w a environ0 = (t, Inr ())
        \<and> snd (startup w a environ0 []) = Inr environ \<longrightarrow>
      filter is_operation t =
        (if will_login a
         then [Login (main_user a environ) (main_pswd a environ) (main_registry a environ)]
         else [])
        @ concat (map (tag_calls (path a) (main_registry a environ) (main_repo a environ)
              (will_push a) (main_build_args environ)) (set_iter w (main_tags a environ))))"
proof (intro conjI impI)
  show "main_repo a environ
     = spec_resolve (given (repository a)) (environ_get environ ''BUILD_REPOSITORY'') []"
    by (simp add: main_repo_def spec_resolve_def given_def or_str_def environ_get_def
        environ_get_default_def split: option.splits)
  show "main_tags a environ
     = (let ts = spec_resolve (map_option set (given (tags a)))
                   (map_option (\<lambda>v. {v}) (environ_get environ ''BUILD_TAG'')) {''latest''}
        in if will_add_latest a then insert ''latest'' ts else ts)"
    by (simp add: main_tags_def spec_resolve_def given_def environ_get_def
        environ_get_default_def Let_def split: option.splits)
  show "main_registry a environ
     = spec_resolve (given (registry a)) (environ_get environ ''BUILD_REGISTRY'') []"
    by (simp add: main_registry_def spec_resolve_def given_def or_str_def environ_get_def
        environ_get_default_def split: option.splits)
  show "main_user a environ
     = spec_resolve (map_option Some (given (login_user a)))
         (map_option Some (environ_get environ ''BUILD_USER'')) None"
    by (simp add: main_user_def spec_resolve_def given_def or_opt_def environ_get_def
        split: option.splits)
  show "main_pswd a environ
     = spec_resolve (map_option Some (given (login_password a)))
         (map_option Some (environ_get environ ''BUILD_PASSWORD'')) None"
    by (simp add: main_pswd_def spec_resolve_def given_def or_opt_def environ_get_def
        split: option.splits)
next
  assume "\<not> is_amazon_mode a \<and> main w a environ0 = (t, Inr ())
        \<and> snd (startup w a environ0 []) = Inr environ"
  then have "main w a environ0 = (t, Inr ())" "\<not> is_amazon_mode a"
    "snd (startup w a environ0 []) = Inr environ" by simp_all
  then show "filter is_operation t =
        (if will_login a
         then [Login (main_user a environ) (main_pswd a environ) (main_registry a environ)]
         else [])
        @ concat (map (tag_calls (path a) (main_registry a environ) (main_repo a environ)
              (will_push a) (main_build_args environ)) (set_iter w (main_tags a environ)))"
    by (rule main_vanilla_ok)
qed

theorem resolution_precedence_witness:
  "\<exists>t. main example_world vanilla_args vanilla_environ = (t, Inr ())
     \<and> filter is_operation t =
         [Login (Some ''bob'') (Some ''secret'') ''reg.example'',
          Build ''.'' ''reg.example/myrepo:v1'' True True [],
          Build ''.'' ''reg.example/myrepo:v2'' True True [],
          Build ''.'' ''reg.example/myrepo:latest'' True True []]"
proof -
  have v: "\<not> is_amazon_mode vanilla_args" by (simp add: vanilla_args_def example_args_def)
  from nr_main_vanilla [OF never_raises_example_world v] obtain t where
    run: "main example_world vanilla_args vanilla_environ = (t, Inr ())" by blast
  have st: "snd (startup example_world vanilla_args vanilla_environ []) = Inr vanilla_environ"
    by code_simp
  from resolution_precedence [of vanilla_args vanilla_environ example_world vanilla_environ t]
    v run st
  have "filter is_operation t =
        (if will_login vanilla_args
         then [Login (main_user vanilla_args vanilla_environ) (main_pswd vanilla_args vanilla_environ)
                 (main_registry vanilla_args vanilla_environ)]
         else [])
        @ concat (map (tag_calls (path vanilla_args) (main_registry vanilla_args vanilla_environ)
              (main_repo vanilla_args vanilla_environ)
              (will_push vanilla_args) (main_build_args vanilla_environ))
            (set_iter example_world (main_tags vanilla_args vanilla_environ)))"
    by blast
  moreover have "(if will_login vanilla_args
         then [Login (main_user vanilla_args vanilla_environ) (main_pswd vanilla_args vanilla_environ)
                 (main_registry vanilla_args vanilla_environ)]
         else [])
        @ concat (map (tag_calls (path vanilla_args) (main_registry vanilla_args vanilla_environ)
              (main_repo vanilla_args vanilla_environ)
              (will_push vanilla_args) (main_build_args vanilla_environ))
            (set_iter example_world (main_tags vanilla_args vanilla_environ)))
      = [Login (Some ''bob'') (Some ''secret'') ''reg.example'',
          Build ''.'' ''reg.example/myrepo:v1'' True True [],
          Build ''.'' ''reg.example/myrepo:v2'' True True [],
          Build ''.'' ''reg.example/myrepo:latest'' True True []]"
    by code_simp
  ultimately have "filter is_operation t =
         [Login (Some ''bob'') (Some ''secret'') ''reg.example'',
          Build ''.'' ''reg.example/myrepo:v1'' True True [],
          Build ''.'' ''reg.example/myrepo:v2'' True True [],
          Build ''.'' ''reg.example/myrepo:latest'' True True []]"
    by simp
  with run show ?thesis by blast
qed

text \<open>The claim as the specification states it fails in three ways on one run in
  Amazon mode: the repository flag is given (with the empty string) and the repository
  is that of \<^verbatim>\<open>BUILD_REPOSITORY\<close>; the registry flag is given and the registry is that
  of the authorization data; \<^verbatim>\<open>BUILD_AMAZON_REGION\<close> is set, no region flag is given,
  and the cloud client is created with no region.\<close>

theorem resolution_precedence_counterexample:
  "main_repo precedence_args precedence_environ
     \<noteq> spec_resolve (repository precedence_args)
         (environ_get precedence_environ ''BUILD_REPOSITORY'') []
   \<and> spec_resolve (registry precedence_args)
         (environ_get precedence_environ ''BUILD_REGISTRY'') [] = ''flag.example''
   \<and> spec_resolve (map_option Some (amazon_region precedence_args))
         (map_option Some (environ_get precedence_environ ''BUILD_AMAZON_REGION'')) None
       = Some ''us-east-1''
   \<and> main example_world precedence_args precedence_environ =
       ([LookupLevel ''INFO'', FindDotenv ''.env'',
         Log Info ''loading environment from {}'' [Str []], LoadDotenv [],
         FromEnv, Log Info ''running in AMAZON mode'' [],
         Log Info ''attempting to get ECR registry token'' [], ImportBoto3,
         Boto3Client None, GetAuthorizationToken None,
         Log Debug ''{}''
           [Response [\<lparr>proxyEndpoint = ''https://ecr.example'',
                        authorizationToken = ''dXNlcjpwYXNz''\<rparr>]],
         Login (Some ''user'') (Some ''pass'') ''ecr.example'',
         Log Info ''building docker image {}'' [Str ''ecr.example/envrepo:latest''],
         Build ''.'' ''ecr.example/envrepo:latest'' True True [],
         Log Info ''completed building image'' [], Log Info ''finished'' []],
        Inr ())"
proof (intro conjI)
  show "main_repo precedence_args precedence_environ
     \<noteq> spec_resolve (repository precedence_args)
         (environ_get precedence_environ ''BUILD_REPOSITORY'') []"
    by code_simp
  show "spec_resolve (registry precedence_args)
         (environ_get precedence_environ ''BUILD_REGISTRY'') [] = ''flag.example''"
    by code_simp
  show "spec_resolve (map_option Some (amazon_region precedence_args))
         (map_option Some (environ_get precedence_environ ''BUILD_AMAZON_REGION'')) None
       = Some ''us-east-1''"
    by code_simp
  show "main example_world precedence_args precedence_environ =
       ([LookupLevel ''INFO'', FindDotenv ''.env'',
         Log Info ''loading environment from {}'' [Str []], LoadDotenv [],
         FromEnv, Log Info ''running in AMAZON mode'' [],
         Log Info ''attempting to get ECR registry token'' [], ImportBoto3,
         Boto3Client None, GetAuthorizationToken None,
         Log Debug ''{}''
           [Response [\<lparr>proxyEndpoint = ''https://ecr.example'',
                        authorizationToken = ''dXNlcjpwYXNz''\<rparr>]],
         Login (Some ''user'') (Some ''pass'') ''ecr.example'',
         Log Info ''building docker image {}'' [Str ''ecr.example/envrepo:latest''],
         Build ''.'' ''ecr.example/envrepo:latest'' True True [],
         Log Info ''completed building image'' [], Log Info ''finished'' []],
        Inr ())"
    by code_simp
qed

end
